theory Spec2Isabelle
  imports Complex_Main
begin

section \<open>Numbers, errors and tables\<close>

text \<open>
  The analytics of \<^verbatim>\<open>app.py\<close> run on numpy and pandas floats. A float is modelled
  as an exact real number or one of the three special values of IEEE arithmetic. Rounding,
  overflow of finite values and the sign of zero are not modelled: every finite result is
  the exact real one. The series and tables handed to the metrics hold finite numbers
  (the application drops missing rows before it computes anything), so inputs are
  \<^typ>\<open>real\<close> lists and only results can be infinite or NaN.
\<close>

datatype npfloat = Fin real | PInf | NInf | NaN

text \<open>The exceptions the modelled code paths can raise.\<close>

datatype py_error = ValueError | IndexError

fun np_add :: "npfloat \<Rightarrow> npfloat \<Rightarrow> npfloat" where
  "np_add (Fin a) (Fin b) = Fin (a + b)"
| "np_add NaN _ = NaN"
| "np_add _ NaN = NaN"
| "np_add PInf NInf = NaN"
| "np_add NInf PInf = NaN"
| "np_add PInf _ = PInf"
| "np_add _ PInf = PInf"
| "np_add NInf _ = NInf"
| "np_add _ NInf = NInf"

fun np_neg :: "npfloat \<Rightarrow> npfloat" where
  "np_neg (Fin a) = Fin (- a)"
| "np_neg PInf = NInf"
| "np_neg NInf = PInf"
| "np_neg NaN = NaN"

definition np_sub :: "npfloat \<Rightarrow> npfloat \<Rightarrow> npfloat" where
  "np_sub x y = np_add x (np_neg y)"

text \<open>The sign of a nonzero real decides the sign of an infinite product or quotient.\<close>

definition inf_signo :: "bool \<Rightarrow> npfloat" where
  "inf_signo positivo = (if positivo then PInf else NInf)"

fun np_mul :: "npfloat \<Rightarrow> npfloat \<Rightarrow> npfloat" where
  "np_mul (Fin a) (Fin b) = Fin (a * b)"
| "np_mul NaN _ = NaN"
| "np_mul _ NaN = NaN"
| "np_mul PInf (Fin b) = (if b = 0 then NaN else inf_signo (0 < b))"
| "np_mul NInf (Fin b) = (if b = 0 then NaN else inf_signo (b < 0))"
| "np_mul (Fin a) PInf = (if a = 0 then NaN else inf_signo (0 < a))"
| "np_mul (Fin a) NInf = (if a = 0 then NaN else inf_signo (a < 0))"
| "np_mul PInf PInf = PInf"
| "np_mul NInf NInf = PInf"
| "np_mul PInf NInf = NInf"
| "np_mul NInf PInf = NInf"

text \<open>
  Division of numpy floats never raises: a nonzero number over zero is an infinity, zero
  over zero is NaN (numpy only emits a warning).
\<close>

fun np_div :: "npfloat \<Rightarrow> npfloat \<Rightarrow> npfloat" where
  "np_div (Fin a) (Fin b) =
     (if b = 0 then (if a = 0 then NaN else inf_signo (0 < a)) else Fin (a / b))"
| "np_div NaN _ = NaN"
| "np_div _ NaN = NaN"
| "np_div (Fin a) PInf = Fin 0"
| "np_div (Fin a) NInf = Fin 0"
| "np_div PInf (Fin b) = inf_signo (0 \<le> b)"
| "np_div NInf (Fin b) = inf_signo (b < 0)"
| "np_div PInf PInf = NaN"
| "np_div PInf NInf = NaN"
| "np_div NInf PInf = NaN"
| "np_div NInf NInf = NaN"

fun np_pow :: "npfloat \<Rightarrow> nat \<Rightarrow> npfloat" where
  "np_pow (Fin a) k = Fin (a ^ k)"
| "np_pow PInf k = (if k = 0 then Fin 1 else PInf)"
| "np_pow NInf k = (if k = 0 then Fin 1 else inf_signo (even k))"
| "np_pow NaN k = (if k = 0 then Fin 1 else NaN)"

fun np_sqrt :: "npfloat \<Rightarrow> npfloat" where
  "np_sqrt (Fin a) = (if a < 0 then NaN else Fin (sqrt a))"
| "np_sqrt PInf = PInf"
| "np_sqrt NInf = NaN"
| "np_sqrt NaN = NaN"

text \<open>Comparisons: every comparison with NaN is false, except \<open>!=\<close>, which is true.\<close>

fun np_ge :: "npfloat \<Rightarrow> npfloat \<Rightarrow> bool" where
  "np_ge (Fin a) (Fin b) = (b \<le> a)"
| "np_ge NaN _ = False"
| "np_ge _ NaN = False"
| "np_ge PInf _ = True"
| "np_ge _ NInf = True"
| "np_ge NInf _ = False"
| "np_ge _ PInf = False"

definition np_ne :: "npfloat \<Rightarrow> npfloat \<Rightarrow> bool" where
  "np_ne x y = (x = NaN \<or> y = NaN \<or> x \<noteq> y)"

text \<open>
  A pandas \<^verbatim>\<open>DataFrame\<close>: the number of columns and the rows in date order. A frame
  keeps its columns when it has no row, so the column count is a field of its own.
\<close>

record 'a frame =
  columnas :: nat
  filas :: "'a list list"

definition bien_formado :: "'a frame \<Rightarrow> bool" where
  "bien_formado df = list_all (\<lambda>fila. length fila = columnas df) (filas df)"

subsection \<open>Statistics of a series\<close>

text \<open>\<^verbatim>\<open>Series.mean()\<close>: NaN on an empty series.\<close>

definition mean_s :: "real list \<Rightarrow> npfloat" where
  "mean_s xs = (if xs = [] then NaN else Fin (sum_list xs / real (length xs)))"

text \<open>The sum of squared deviations from the mean, the numerator of every variance.\<close>

definition suma_desv2 :: "real list \<Rightarrow> real" where
  "suma_desv2 xs =
     (let m = sum_list xs / real (length xs) in sum_list (map (\<lambda>x. (x - m)\<^sup>2) xs))"

text \<open>\<^verbatim>\<open>Series.std()\<close>: the sample standard deviation (ddof = 1), NaN below two
  observations.\<close>

definition std_s :: "real list \<Rightarrow> npfloat" where
  "std_s xs =
     (if length xs < 2 then NaN else Fin (sqrt (suma_desv2 xs / real (length xs - 1))))"

subsection \<open>Portfolio aggregation\<close>

text \<open>
  \<^verbatim>\<open>(returns * weights).sum(axis=1)\<close>: pandas turns the weight list into a row
  aligned with the columns and raises \<^verbatim>\<open>ValueError\<close> when the lengths differ;
  otherwise every row is multiplied entry by entry and summed.
\<close>

definition suma_ponderada :: "real list \<Rightarrow> real list \<Rightarrow> real" where
  "suma_ponderada fila weights = sum_list (map2 (*) fila weights)"

definition suma_filas :: "real frame \<Rightarrow> real list \<Rightarrow> py_error + real list" where
  "suma_filas returns weights =
     (if length weights \<noteq> columnas returns then Inl ValueError
      else Inr (map (\<lambda>fila. suma_ponderada fila weights) (filas returns)))"

definition calcular_rendimientos_portafolio ::
  "real frame \<Rightarrow> real list \<Rightarrow> py_error + real list" where
  "calcular_rendimientos_portafolio returns weights = suma_filas returns weights"

subsection \<open>Historical VaR and CVaR\<close>

text \<open>
  \<^verbatim>\<open>Series.quantile(q)\<close> with pandas' default linear interpolation: a probability
  outside [0, 1] raises \<^verbatim>\<open>ValueError\<close>, an empty series gives NaN, and otherwise the
  value at the fractional position \<open>(n - 1) * q\<close> of the sorted observations, interpolated
  between the two neighbouring order statistics.
\<close>

definition quantile_s :: "real list \<Rightarrow> real \<Rightarrow> py_error + npfloat" where
  "quantile_s xs q =
     (if q < 0 \<or> 1 < q then Inl ValueError
      else if xs = [] then Inr NaN
      else
        let s = sort xs;
            h = real (length xs - 1) * q;
            lo = nat \<lfloor>h\<rfloor>;
            hi = min (lo + 1) (length xs - 1);
            g = h - real lo
        in Inr (Fin (s ! lo + (s ! hi - s ! lo) * g)))"

text \<open>\<^verbatim>\<open>returns[returns <= VaR]\<close>: the observations at or below the threshold; a
  comparison with NaN selects nothing.\<close>

definition menores_o_iguales :: "real list \<Rightarrow> npfloat \<Rightarrow> real list" where
  "menores_o_iguales returns VaR = filter (\<lambda>x. np_ge VaR (Fin x)) returns"

definition calcular_var_cvar :: "real list \<Rightarrow> real \<Rightarrow> py_error + (npfloat \<times> npfloat)" where
  "calcular_var_cvar returns confidence =
     (case quantile_s returns (1 - confidence) of
        Inl e \<Rightarrow> Inl e
      | Inr VaR \<Rightarrow> Inr (VaR, mean_s (menores_o_iguales returns VaR)))"

subsection \<open>Trailing windows\<close>

text \<open>
  \<^verbatim>\<open>series.iloc[k:]\<close> with Python's slice rules: a negative start counts from the end
  and is clamped at the first position, a start past the end gives the empty series.
\<close>

definition iloc_desde :: "int \<Rightarrow> 'a list \<Rightarrow> 'a list" where
  "iloc_desde k xs =
     (if k < 0 then drop (nat (int (length xs) + k)) xs else drop (nat k) xs)"

definition calcular_rendimiento_ventana :: "real list \<Rightarrow> int \<Rightarrow> npfloat" where
  "calcular_rendimiento_ventana returns window =
     (if int (length returns) < window then NaN
      else Fin (prod_list (map (\<lambda>x. 1 + x) (iloc_desde (- window) returns)) - 1))"

definition calcular_var_cvar_ventana ::
  "real list \<Rightarrow> int \<Rightarrow> py_error + (npfloat \<times> npfloat)" where
  "calcular_var_cvar_ventana returns window =
     (if int (length returns) < window then Inr (NaN, NaN)
      else calcular_var_cvar (iloc_desde (- window) returns) (95 / 100))"

text \<open>
  The specification's words, for comparison with the code: the compound return of a
  series, and the slice holding its last \<open>w\<close> observations.
\<close>

definition compound_return_spec :: "real list \<Rightarrow> real" where
  "compound_return_spec xs = (\<Prod>x\<leftarrow>xs. 1 + x) - 1"

definition trailing_slice_spec :: "nat \<Rightarrow> 'a list \<Rightarrow> 'a list" where
  "trailing_slice_spec w xs = rev (take w (rev xs))"

subsection \<open>Ratios of a series\<close>

text \<open>\<^verbatim>\<open>np.var(series)\<close> hands over to \<^verbatim>\<open>Series.var(ddof=0)\<close>: the population
  variance, NaN on an empty series.\<close>

definition var_pop :: "real list \<Rightarrow> npfloat" where
  "var_pop xs = (if xs = [] then NaN else Fin (suma_desv2 xs / real (length xs)))"

text \<open>The sum of the products of the deviations of two aligned series from their means.\<close>

definition suma_codesv :: "real list \<Rightarrow> real list \<Rightarrow> real" where
  "suma_codesv xs ys =
     (let mx = sum_list xs / real (length xs); my = sum_list ys / real (length ys)
      in sum_list (map2 (\<lambda>x y. (x - mx) * (y - my)) xs ys))"

text \<open>
  \<^verbatim>\<open>np.cov(a, m)[0, 1]\<close>: the two series are stacked, which raises
  \<^verbatim>\<open>ValueError\<close> when their lengths differ; the sum of products is divided by
  \<open>n - 1\<close> (ddof = 1), and with fewer than two observations the entry is NaN.
\<close>

definition np_cov01 :: "real list \<Rightarrow> real list \<Rightarrow> py_error + npfloat" where
  "np_cov01 a m =
     (if length a \<noteq> length m then Inl ValueError
      else if length a < 2 then Inr NaN
      else Inr (Fin (suma_codesv a m / real (length a - 1))))"

definition calcular_beta :: "real list \<Rightarrow> real list \<Rightarrow> py_error + npfloat" where
  "calcular_beta asset_returns market_returns =
     (case np_cov01 asset_returns market_returns of
        Inl e \<Rightarrow> Inl e
      | Inr covariance \<Rightarrow>
          let market_variance = var_pop market_returns
          in Inr (if np_ne market_variance (Fin 0) then np_div covariance market_variance
                  else NaN))"

text \<open>
  The ratio of covariance to variance when both are computed with the same divisor
  \<open>n - ddof\<close>, for comparison with \<open>calcular_beta\<close>.
\<close>

definition beta_misma_convencion :: "nat \<Rightarrow> real list \<Rightarrow> real list \<Rightarrow> real" where
  "beta_misma_convencion ddof a m =
     (suma_codesv a m / real (length m - ddof)) / (suma_desv2 m / real (length m - ddof))"

definition calcular_sharpe_ratio :: "real list \<Rightarrow> real \<Rightarrow> npfloat" where
  "calcular_sharpe_ratio returns risk_free_rate =
     (let excess_returns = map (\<lambda>x. x - risk_free_rate / 252) returns
      in np_div (np_mul (Fin (sqrt 252)) (mean_s excess_returns)) (std_s excess_returns))"

definition calcular_sortino_ratio :: "real list \<Rightarrow> real \<Rightarrow> real \<Rightarrow> npfloat" where
  "calcular_sortino_ratio returns risk_free_rate target_return =
     (let excess_returns = map (\<lambda>x. x - risk_free_rate / 252) returns;
          downside_returns = filter (\<lambda>x. x < target_return) excess_returns;
          downside_deviation = np_sqrt (mean_s (map (\<lambda>x. x\<^sup>2) downside_returns))
      in if np_ne downside_deviation (Fin 0)
         then np_div (np_mul (Fin (sqrt 252)) (mean_s excess_returns)) downside_deviation
         else NaN)"

subsection \<open>Annualised figures and the optimizer's objectives\<close>

definition calcular_rendimiento_anualizado :: "real list \<Rightarrow> npfloat" where
  "calcular_rendimiento_anualizado returns =
     np_sub (np_pow (np_add (Fin 1) (mean_s returns)) 252) (Fin 1)"

definition calcular_volatilidad_anualizada :: "real list \<Rightarrow> npfloat" where
  "calcular_volatilidad_anualizada returns = np_mul (std_s returns) (Fin (sqrt 252))"

definition calcular_sharpe_ratio_anualizado :: "real list \<Rightarrow> real \<Rightarrow> npfloat" where
  "calcular_sharpe_ratio_anualizado returns risk_free_rate =
     (let excess_returns = np_sub (mean_s returns) (Fin (risk_free_rate / 252))
      in np_mul (np_div excess_returns (std_s returns)) (Fin (sqrt 252)))"

definition minimizar_volatilidad :: "real list \<Rightarrow> real frame \<Rightarrow> py_error + npfloat" where
  "minimizar_volatilidad pesos returns =
     (case suma_filas returns pesos of
        Inl e \<Rightarrow> Inl e
      | Inr portfolio_returns \<Rightarrow> Inr (calcular_volatilidad_anualizada portfolio_returns))"

definition maximizar_sharpe :: "real list \<Rightarrow> real frame \<Rightarrow> real \<Rightarrow> py_error + npfloat" where
  "maximizar_sharpe pesos returns risk_free_rate =
     (case suma_filas returns pesos of
        Inl e \<Rightarrow> Inl e
      | Inr portfolio_returns \<Rightarrow>
          Inr (np_neg (calcular_sharpe_ratio_anualizado portfolio_returns risk_free_rate)))"

definition volatilidad_con_objetivo ::
  "real list \<Rightarrow> real frame \<Rightarrow> real \<Rightarrow> py_error + npfloat" where
  "volatilidad_con_objetivo pesos returns target_return =
     (case suma_filas returns pesos of
        Inl e \<Rightarrow> Inl e
      | Inr portfolio_returns \<Rightarrow>
          let rendimiento_anualizado = calcular_rendimiento_anualizado portfolio_returns;
              volatilidad = calcular_volatilidad_anualizada portfolio_returns
          in Inr (if np_ge rendimiento_anualizado (Fin target_return) then volatilidad
                  else PInf))"

subsection \<open>The optimizer\<close>

text \<open>
  \<^verbatim>\<open>scipy.optimize.minimize\<close> is outside the repository. A call is recorded with
  everything the code hands over: the objective, the start, the method, the bounds and
  the constraints. The solver itself is a parameter of the model, a function from the
  call to the terminal point \<^verbatim>\<open>.x\<close> it reports (or to an exception).
\<close>

datatype restriccion =
  Eq "real list \<Rightarrow> py_error + npfloat"
| Ineq "real list \<Rightarrow> py_error + npfloat"

record llamada =
  objetivo :: "real list \<Rightarrow> py_error + npfloat"
  x0 :: "real list"
  metodo :: string
  limites :: "(real \<times> real) list"
  restricciones :: "restriccion list"

type_synonym solver = "llamada \<Rightarrow> py_error + real list"

text \<open>The two shapes of the optimizer's result: a tuple of two weight vectors, or one
  weight vector.\<close>

datatype resultado = Par "real list" "real list" | Unico "real list"

definition pesos_iniciales :: "nat \<Rightarrow> real list" where
  "pesos_iniciales n = replicate n (1 / real n)"

definition limites_pesos :: "nat \<Rightarrow> (real \<times> real) list" where
  "limites_pesos n = replicate n (0, 1)"

definition restriccion_suma :: restriccion where
  "restriccion_suma = Eq (\<lambda>pesos. Inr (Fin (sum_list pesos - 1)))"

definition restriccion_rendimiento :: "real frame \<Rightarrow> real \<Rightarrow> restriccion" where
  "restriccion_rendimiento returns target_return =
     Ineq (\<lambda>pesos. case suma_filas returns pesos of
                      Inl e \<Rightarrow> Inl e
                    | Inr portfolio_returns \<Rightarrow>
                        Inr (np_sub (calcular_rendimiento_anualizado portfolio_returns)
                               (Fin target_return)))"

definition llamada_volatilidad :: "real frame \<Rightarrow> llamada" where
  "llamada_volatilidad returns =
     \<lparr>objetivo = (\<lambda>pesos. minimizar_volatilidad pesos returns),
      x0 = pesos_iniciales (columnas returns),
      metodo = ''SLSQP'',
      limites = limites_pesos (columnas returns),
      restricciones = [restriccion_suma]\<rparr>"

definition llamada_sharpe :: "real frame \<Rightarrow> real \<Rightarrow> llamada" where
  "llamada_sharpe returns risk_free_rate =
     \<lparr>objetivo = (\<lambda>pesos. maximizar_sharpe pesos returns risk_free_rate),
      x0 = pesos_iniciales (columnas returns),
      metodo = ''SLSQP'',
      limites = limites_pesos (columnas returns),
      restricciones = [restriccion_suma]\<rparr>"

definition llamada_target :: "real frame \<Rightarrow> real \<Rightarrow> llamada" where
  "llamada_target returns target_return =
     \<lparr>objetivo = (\<lambda>pesos. minimizar_volatilidad pesos returns),
      x0 = pesos_iniciales (columnas returns),
      metodo = ''SLSQP'',
      limites = limites_pesos (columnas returns),
      restricciones = [restriccion_suma] @ [restriccion_rendimiento returns target_return]\<rparr>"

definition optimizar_portafolio ::
  "solver \<Rightarrow> real frame \<Rightarrow> real option \<Rightarrow> real \<Rightarrow> py_error + resultado" where
  "optimizar_portafolio minimize returns target_return risk_free_rate =
     (case target_return of
        None \<Rightarrow>
          (case minimize (llamada_volatilidad returns) of
             Inl e \<Rightarrow> Inl e
           | Inr resultado_volatilidad \<Rightarrow>
               (case minimize (llamada_sharpe returns risk_free_rate) of
                  Inl e \<Rightarrow> Inl e
                | Inr resultado_sharpe \<Rightarrow> Inr (Par resultado_volatilidad resultado_sharpe)))
      | Some objetivo_rendimiento \<Rightarrow>
          (case minimize (llamada_target returns objetivo_rendimiento) of
             Inl e \<Rightarrow> Inl e
           | Inr resultado_target \<Rightarrow> Inr (Unico resultado_target)))"

text \<open>
  A stand-in solver for evaluating the optimizer on a concrete table: it looks at the
  objective at the start and at the number of constraints, so that its answers to the
  three calls differ.
\<close>

definition solver_prueba :: solver where
  "solver_prueba c =
     (case objetivo c (x0 c) of
        Inl e \<Rightarrow> Inl e
      | Inr v \<Rightarrow>
          if v = PInf then Inr [1, 0]
          else if length (restricciones c) = 2 then Inr [0, 1]
          else Inr (x0 c))"

subsection \<open>Returns, cumulative returns and normalised prices of a price table\<close>

text \<open>\<^verbatim>\<open>df.shift(1)\<close>: every row moves down by one, the first row is NaN and the
  last row is lost.\<close>

definition shift1 :: "real frame \<Rightarrow> npfloat list list" where
  "shift1 df =
     (case filas df of
        [] \<Rightarrow> []
      | _ # _ \<Rightarrow> replicate (columnas df) NaN # map (map Fin) (butlast (filas df)))"

text \<open>\<^verbatim>\<open>df.pct_change()\<close>: each price over the price one row earlier, minus one.\<close>

definition pct_change :: "real frame \<Rightarrow> npfloat frame" where
  "pct_change df =
     \<lparr>columnas = columnas df,
      filas = map2 (map2 (\<lambda>p q. np_sub (np_div (Fin p) q) (Fin 1))) (filas df) (shift1 df)\<rparr>"

text \<open>\<^verbatim>\<open>.dropna()\<close>: a row is kept when none of its entries is NaN.\<close>

definition dropna :: "npfloat frame \<Rightarrow> npfloat frame" where
  "dropna df = df\<lparr>filas := filter (list_all (\<lambda>x. x \<noteq> NaN)) (filas df)\<rparr>"

text \<open>
  \<^verbatim>\<open>.cumprod()\<close>: the running product down every column. pandas skips NaN: a NaN
  entry counts as 1 in the product and stays NaN in the result.
\<close>

fun cumprod_filas :: "npfloat list \<Rightarrow> npfloat list list \<Rightarrow> npfloat list list" where
  "cumprod_filas acc [] = []"
| "cumprod_filas acc (fila # resto) =
     (let acc' = map2 (\<lambda>a x. np_mul a (if x = NaN then Fin 1 else x)) acc fila
      in map2 (\<lambda>a x. if x = NaN then NaN else a) acc' fila # cumprod_filas acc' resto)"

definition cumprod :: "npfloat frame \<Rightarrow> npfloat frame" where
  "cumprod df = df\<lparr>filas := cumprod_filas (replicate (columnas df) (Fin 1)) (filas df)\<rparr>"

definition mapear :: "('a \<Rightarrow> 'b) \<Rightarrow> 'a frame \<Rightarrow> 'b frame" where
  "mapear f df = \<lparr>columnas = columnas df, filas = map (map f) (filas df)\<rparr>"

text \<open>
  \<^verbatim>\<open>df.iloc[0]\<close> raises \<^verbatim>\<open>IndexError\<close> on a table with no row; it is the only
  statement of \<^verbatim>\<open>calcular_metricas\<close> that can raise.
\<close>

definition calcular_metricas ::
  "real frame \<Rightarrow> py_error + (npfloat frame \<times> npfloat frame \<times> npfloat frame)" where
  "calcular_metricas df =
     (let returns = dropna (pct_change df);
          cumulative_returns =
            mapear (\<lambda>x. np_sub x (Fin 1)) (cumprod (mapear (np_add (Fin 1)) returns))
      in case filas df of
           [] \<Rightarrow> Inl IndexError
         | primera # _ \<Rightarrow>
             Inr (returns, cumulative_returns,
                  \<lparr>columnas = columnas df,
                   filas = map (\<lambda>fila. map2 (\<lambda>p p0. np_mul (np_div (Fin p) (Fin p0)) (Fin 100))
                                          fila primera) (filas df)\<rparr>))"


text \<open>
  The specification's returns of a price table: the simple percent change of every row
  against the row before it, starting at the second row.
\<close>

fun pct_filas_spec :: "real list \<Rightarrow> real list list \<Rightarrow> npfloat list list" where
  "pct_filas_spec anterior [] = []"
| "pct_filas_spec anterior (fila # resto) =
     map2 (\<lambda>p q. Fin (p / q - 1)) fila anterior # pct_filas_spec fila resto"

text \<open>A table whose prices are all nonzero, the last row apart: the prices that the
  percent change divides by.\<close>

definition divisores_no_nulos :: "real frame \<Rightarrow> bool" where
  "divisores_no_nulos df = list_all (list_all (\<lambda>p. p \<noteq> 0)) (butlast (filas df))"

section \<open>The same computations in rounded arithmetic\<close>

text \<open>
  Where rounding decides a property, the library computations are modelled once more
  with every arithmetic result passed through a rounding operator \<open>rd\<close>: a float
  operation is the exact operation followed by \<open>rd\<close>. With the identity for \<open>rd\<close> this
  is the exact computation above. Overflow and underflow are left out: a rounding
  operator maps reals to reals.
\<close>

subsection \<open>IEEE binary64 rounding\<close>

text \<open>Rounding to the nearest integer, ties to the even one.\<close>

definition redondeo_par :: "real \<Rightarrow> int" where
  "redondeo_par y =
     (let f = \<lfloor>y\<rfloor>; d = y - of_int f
      in if d < 1 / 2 then f else if 1 / 2 < d then f + 1 else if even f then f else f + 1)"

text \<open>The binary exponent of a nonzero number: \<open>2 ^ e \<le> |x| < 2 ^ (e + 1)\<close>.\<close>

definition exponente :: "real \<Rightarrow> int" where
  "exponente x = \<lfloor>log 2 \<bar>x\<bar>\<rfloor>"

text \<open>
  Rounding to the nearest number with a 53-bit significand, ties to even: the rounding of
  Python and numpy floats, with an unbounded exponent range.
\<close>

definition redondeo64 :: "real \<Rightarrow> real" where
  "redondeo64 x =
     (if x = 0 then 0
      else let ulp = 2 powi (exponente x - 52)
           in ulp * of_int (redondeo_par (x / ulp)))"

text \<open>
  What the proofs need of a rounding operator: it is monotone and its relative error is
  at most \<open>u\<close>, the unit roundoff, which is small.
\<close>

definition redondeo_valido :: "real \<Rightarrow> (real \<Rightarrow> real) \<Rightarrow> bool" where
  "redondeo_valido u rd =
     (0 \<le> u \<and> u \<le> 1 / 32 \<and> (\<forall>x y. x \<le> y \<longrightarrow> rd x \<le> rd y)
      \<and> (\<forall>x. \<bar>rd x - x\<bar> \<le> u * \<bar>x\<bar>))"

subsection \<open>The mean of a series in floating point\<close>

text \<open>
  \<^verbatim>\<open>Series.mean()\<close> is the sum of the values (numpy's \<^verbatim>\<open>add.reduce\<close>) over their
  number. numpy sums a contiguous block pairwise: fewer than 8 values one after the
  other from zero; up to 128 values with 8 running accumulators over the leading blocks
  of 8, combined as a balanced tree, and then the remaining values one after the other;
  more than 128 values by splitting at half the length, rounded down to a multiple of 8.
\<close>

fun suma_sec :: "(real \<Rightarrow> real) \<Rightarrow> real \<Rightarrow> real list \<Rightarrow> real" where
  "suma_sec rd res [] = res"
| "suma_sec rd res (x # xs) = suma_sec rd (rd (res + x)) xs"

function acumular8 :: "(real \<Rightarrow> real) \<Rightarrow> real list \<Rightarrow> real list \<Rightarrow> real list" where
  "acumular8 rd r ys =
     (if length ys < 8 then r
      else acumular8 rd (map2 (\<lambda>a y. rd (a + y)) r (take 8 ys)) (drop 8 ys))"
  by pat_completeness auto
termination
  by (relation "measure (\<lambda>(rd, r, ys). length ys)") auto

declare acumular8.simps [simp del]

definition arbol8 :: "(real \<Rightarrow> real) \<Rightarrow> real list \<Rightarrow> real" where
  "arbol8 rd r =
     rd (rd (rd (r ! 0 + r ! 1) + rd (r ! 2 + r ! 3))
         + rd (rd (r ! 4 + r ! 5) + rd (r ! 6 + r ! 7)))"

function suma_pares :: "(real \<Rightarrow> real) \<Rightarrow> real list \<Rightarrow> real" where
  "suma_pares rd xs =
     (let n = length xs in
      if n < 8 then suma_sec rd 0 xs
      else if n \<le> 128 then
        suma_sec rd (arbol8 rd (acumular8 rd (take 8 xs) (drop 8 xs))) (drop (n - n mod 8) xs)
      else
        (let n2 = n div 2 - (n div 2) mod 8
         in rd (suma_pares rd (take n2 xs) + suma_pares rd (drop n2 xs))))"
  by pat_completeness auto
termination
  by (relation "measure (\<lambda>(rd, xs). length xs)") auto

declare suma_pares.simps [simp del]

text \<open>The reduction starts from zero, adds the pairwise sum, and divides by the count.\<close>

definition media_rd :: "(real \<Rightarrow> real) \<Rightarrow> real list \<Rightarrow> npfloat" where
  "media_rd rd xs =
     (if xs = [] then NaN else Fin (rd (rd (0 + suma_pares rd xs) / real (length xs))))"

subsection \<open>The quantile and VaR/CVaR in floating point\<close>

text \<open>
  numpy's linear interpolation \<^verbatim>\<open>_lerp(a, b, t)\<close>: \<open>a + (b - a) * t\<close>, replaced by
  \<open>b - (b - a) * (1 - t)\<close> where \<open>t \<ge> 0.5\<close>.
\<close>

definition lerp_rd :: "(real \<Rightarrow> real) \<Rightarrow> real \<Rightarrow> real \<Rightarrow> real \<Rightarrow> real" where
  "lerp_rd rd a b t =
     (let d = rd (b - a)
      in if 1 / 2 \<le> t then rd (b - rd (d * rd (1 - t))) else rd (a + rd (d * t)))"

text \<open>
  \<^verbatim>\<open>Series.quantile(q)\<close>: pandas checks \<open>0 \<le> q \<le> 1\<close> and hands \<open>q * 100\<close> to
  \<^verbatim>\<open>np.percentile\<close>, which divides by 100 again and checks the range; the position is
  \<open>(n - 1) * q\<close>; at or past the last position both neighbours are the last order
  statistic, below the first both are the first; otherwise the neighbours are the order
  statistics at the floor of the position and the next one, and the weight is the
  fractional part.
\<close>

definition cuantil_rd :: "(real \<Rightarrow> real) \<Rightarrow> real list \<Rightarrow> real \<Rightarrow> py_error + npfloat" where
  "cuantil_rd rd xs q =
     (if q < 0 \<or> 1 < q then Inl ValueError
      else
        let q' = rd (rd (q * 100) / 100)
        in if q' < 0 \<or> 1 < q' then Inl ValueError
           else if xs = [] then Inr NaN
           else
             let s = sort xs;
                 n = length xs;
                 h = rd (real (n - 1) * q')
             in if real (n - 1) \<le> h then Inr (Fin (lerp_rd rd (last s) (last s) (rd (h + 1))))
                else if h < 0 then Inr (Fin (lerp_rd rd (s ! 0) (s ! 0) (rd h)))
                else
                  let lo = nat \<lfloor>h\<rfloor>
                  in Inr (Fin (lerp_rd rd (s ! lo) (s ! (lo + 1)) (rd (h - real lo)))))"

definition calcular_var_cvar_rd ::
  "(real \<Rightarrow> real) \<Rightarrow> real list \<Rightarrow> real \<Rightarrow> py_error + (npfloat \<times> npfloat)" where
  "calcular_var_cvar_rd rd returns confidence =
     (case cuantil_rd rd returns (rd (1 - confidence)) of
        Inl e \<Rightarrow> Inl e
      | Inr VaR \<Rightarrow> Inr (VaR, media_rd rd (menores_o_iguales returns VaR)))"

text \<open>
  Some doubles by their exact values: the doubles nearest to 0.1, 0.5 and 0.95, the double
  after 0.1 (printed 0.10000000000000002), and the doubles the quantile computation
  passes through at probability \<open>1 - 0.95\<close> on four observations.
\<close>

definition d01 :: real where "d01 = 3602879701896397 / 2 ^ 55"
definition d05 :: real where "d05 = 1 / 2"
definition d01s :: real where "d01s = 7205759403792795 / 2 ^ 56"
definition d095 :: real where "d095 = 4278419646001971 / 2 ^ 52"
definition d005 :: real where "d005 = 225179981368525 / 2 ^ 52"
definition d5 :: real where "d5 = 5629499534213125 / 2 ^ 50"
definition d015 :: real where "d015 = 675539944105575 / 2 ^ 52"


section \<open>Properties\<close>

subsection \<open>Portfolio aggregation\<close>

text \<open>
  C7. When the number of weights differs from the number of asset columns the aggregation
  fails at once with the dimension error (pandas' ValueError) and yields no series; when
  they agree the result is the row-wise weighted sum. For the two assets of scenario A
  with weights one half each the result is exactly 0.015, 0, 0.005, -0.01.
\<close>

theorem calcular_rendimientos_portafolio_dimension:
  "(length weights \<noteq> columnas returns \<longrightarrow>
      calcular_rendimientos_portafolio returns weights = Inl ValueError)
   \<and> (length weights = columnas returns \<longrightarrow>
      calcular_rendimientos_portafolio returns weights =
        Inr (map (\<lambda>fila. sum_list (map2 (*) fila weights)) (filas returns)))
   \<and> calcular_rendimientos_portafolio
        \<lparr>columnas = 2,
         filas = [[1/100, 2/100], [-1/100, 1/100], [2/100, -1/100], [-2/100, 0]]\<rparr>
        [1/2, 1/2]
      = Inr [15/1000, 0, 5/1000, -1/100]"
  by (simp add: calcular_rendimientos_portafolio_def suma_filas_def suma_ponderada_def)

theorem calcular_rendimientos_portafolio_dimension_witness:
  "calcular_rendimientos_portafolio \<lparr>columnas = 2, filas = [[1/100, 2/100]]\<rparr> [1] = Inl ValueError
   \<and> calcular_rendimientos_portafolio \<lparr>columnas = 2, filas = [[1/100, 2/100]]\<rparr> [1/2, 1/2]
       = Inr [15/1000]"
  using calcular_rendimientos_portafolio_dimension
    [of "[1]" "\<lparr>columnas = 2, filas = [[1/100, 2/100]]\<rparr>"]
    calcular_rendimientos_portafolio_dimension
    [of "[1/2, 1/2]" "\<lparr>columnas = 2, filas = [[1/100, 2/100]]\<rparr>"]
  by simp

subsection \<open>Historical VaR and CVaR\<close>

lemma sum_list_le_bound:
  "(\<forall>x\<in>set ys. x \<le> (v::real)) \<Longrightarrow> sum_list ys \<le> real (length ys) * v"
  by (induction ys) (auto simp: algebra_simps)

lemma mean_le_bound:
  assumes "ys \<noteq> []" "\<forall>x\<in>set ys. x \<le> (v::real)"
  shows "sum_list ys / real (length ys) \<le> v"
proof -
  have "sum_list ys \<le> real (length ys) * v" using assms(2) by (rule sum_list_le_bound)
  moreover have "0 < real (length ys)" using assms(1) by simp
  ultimately show ?thesis by (simp add: pos_divide_le_eq mult.commute)
qed

text \<open>The interpolated quantile of a nonempty series is a number, and some observation
  lies at or below it: the order statistic the interpolation starts from.\<close>

lemma quantile_s_cota:
  assumes "xs \<noteq> []" "0 \<le> q" "q \<le> 1"
  shows "\<exists>v. quantile_s xs q = Inr (Fin v) \<and> (\<exists>x\<in>set xs. x \<le> v)"
proof -
  define n where "n = length xs"
  define s where "s = sort xs"
  define h where "h = real (n - 1) * q"
  define lo where "lo = nat \<lfloor>h\<rfloor>"
  define hi where "hi = min (lo + 1) (n - 1)"
  define g where "g = h - real lo"
  have n0: "0 < n" using assms(1) by (simp add: n_def)
  have h0: "0 \<le> h" using assms(2) by (simp add: h_def)
  have h1: "h \<le> real (n - 1)" using assms(2,3) by (simp add: h_def mult_left_le)
  have lo_le: "lo \<le> n - 1" unfolding lo_def using h1 h0
    by (metis floor_mono floor_of_nat nat_int nat_mono)
  have lo_hi: "lo \<le> hi" using lo_le by (simp add: hi_def)
  have "hi \<le> n - 1" by (simp add: hi_def)
  hence "hi < n" using n0 by linarith
  hence hi_lt: "hi < length s" by (simp add: s_def n_def)
  have g0: "0 \<le> g" unfolding g_def lo_def using h0 by simp
  have "s ! lo \<le> s ! hi" using lo_hi hi_lt by (simp add: s_def sorted_nth_mono)
  hence "s ! lo \<le> s ! lo + (s ! hi - s ! lo) * g" using g0 by simp
  moreover have "s ! lo \<in> set xs" using lo_hi hi_lt
    by (metis le_less_trans nth_mem s_def set_sort)
  moreover have "quantile_s xs q = Inr (Fin (s ! lo + (s ! hi - s ! lo) * g))"
    using assms by (simp add: quantile_s_def Let_def s_def h_def lo_def hi_def g_def n_def)
  ultimately show ?thesis by blast
qed

text \<open>
  In exact arithmetic: for every nonempty return series, \<open>calcular_var_cvar\<close> at
  confidence 0.95 returns two numbers, the 0.05 quantile of the series and the mean of
  the observations at or below it, of which there is at least one, and the mean is at
  most the quantile.
\<close>

lemma calcular_var_cvar_exacto:
  assumes "r \<noteq> []"
  shows "\<exists>v c. calcular_var_cvar r (95 / 100) = Inr (Fin v, Fin c)
           \<and> quantile_s r (5 / 100) = Inr (Fin v)
           \<and> filter (\<lambda>x. x \<le> v) r \<noteq> []
           \<and> mean_s (filter (\<lambda>x. x \<le> v) r) = Fin c
           \<and> c \<le> v"
proof -
  obtain v where v: "quantile_s r (5 / 100) = Inr (Fin v)" and ex: "\<exists>x\<in>set r. x \<le> v"
    using quantile_s_cota [OF assms, of "5 / 100"] by auto
  let ?t = "filter (\<lambda>x. x \<le> v) r"
  have ne: "?t \<noteq> []" using ex by (auto simp: filter_empty_conv)
  have le: "sum_list ?t / real (length ?t) \<le> v"
    by (rule mean_le_bound [OF ne]) simp
  have m: "mean_s ?t = Fin (sum_list ?t / real (length ?t))"
    using ne by (simp add: mean_s_def)
  have "calcular_var_cvar r (95 / 100) = Inr (Fin v, Fin (sum_list ?t / real (length ?t)))"
    using v m by (simp add: calcular_var_cvar_def menores_o_iguales_def)
  with v ne le m show ?thesis by blast
qed

subsection \<open>Trailing windows\<close>

lemma iloc_desde_cola:
  "0 < w \<Longrightarrow> w \<le> int (length xs) \<Longrightarrow> iloc_desde (- w) xs = trailing_slice_spec (nat w) xs"
  apply (simp add: iloc_desde_def trailing_slice_spec_def take_rev)
  apply (subgoal_tac "nat (int (length xs) - w) = length xs - nat w")
   apply simp
  apply linarith
  done

text \<open>
  C4 (as amended). A series shorter than the window gives the undefined value (NaN, or
  the pair of NaN). For a window of at least one observation that the series covers,
  the windowed return is the compound return of the trailing slice of that length, and
  the windowed VaR and CVaR are those of \<open>calcular_var_cvar\<close> on that slice.
\<close>

theorem ventana_indefinida_o_cola:
  "(int (length r) < w \<longrightarrow>
      calcular_rendimiento_ventana r w = NaN \<and> calcular_var_cvar_ventana r w = Inr (NaN, NaN))
   \<and> (0 < w \<and> w \<le> int (length r) \<longrightarrow>
      calcular_rendimiento_ventana r w
        = Fin (compound_return_spec (trailing_slice_spec (nat w) r))
      \<and> calcular_var_cvar_ventana r w
        = calcular_var_cvar (trailing_slice_spec (nat w) r) (95 / 100))"
  by (simp add: calcular_rendimiento_ventana_def calcular_var_cvar_ventana_def
      compound_return_spec_def iloc_desde_cola)

theorem ventana_indefinida_o_cola_witness:
  "calcular_rendimiento_ventana [1 / 10, 2 / 10] 3 = NaN
   \<and> calcular_var_cvar_ventana [1 / 10, 2 / 10] 3 = Inr (NaN, NaN)
   \<and> calcular_rendimiento_ventana [1 / 10, 2 / 10] 1 = Fin (2 / 10)
   \<and> calcular_var_cvar_ventana [1 / 10, 2 / 10] 1 = Inr (Fin (2 / 10), Fin (2 / 10))"
  using ventana_indefinida_o_cola [of "[1 / 10, 2 / 10]" 3]
    ventana_indefinida_o_cola [of "[1 / 10, 2 / 10]" 1]
  by (simp add: compound_return_spec_def trailing_slice_spec_def calcular_var_cvar_def
      quantile_s_def menores_o_iguales_def mean_s_def)

text \<open>
  With a window of zero the slice \<^verbatim>\<open>iloc[-0:]\<close> is the whole series, not its empty
  tail: the windowed return of the one-observation series 0.1 is 0.1, while the compound
  return of the empty slice is 0; the windowed VaR and CVaR are 0.1 each, while the empty
  slice has none.
\<close>

theorem ventana_cero_serie_completa:
  "calcular_rendimiento_ventana [1 / 10] 0 = Fin (1 / 10)
   \<and> Fin (compound_return_spec (trailing_slice_spec (nat 0) [1 / 10])) = Fin 0
   \<and> calcular_var_cvar_ventana [1 / 10] 0 = Inr (Fin (1 / 10), Fin (1 / 10))
   \<and> calcular_var_cvar (trailing_slice_spec (nat 0) [1 / 10]) (95 / 100) = Inr (NaN, NaN)"
  by (simp add: calcular_rendimiento_ventana_def calcular_var_cvar_ventana_def
      compound_return_spec_def trailing_slice_spec_def iloc_desde_def calcular_var_cvar_def
      quantile_s_def menores_o_iguales_def mean_s_def)

subsection \<open>Sharpe ratio of a constant series\<close>

text \<open>
  C5. On the constant series 0.001, 0.001 with the default risk-free rate the excess
  returns have standard deviation zero and a positive mean, and \<open>calcular_sharpe_ratio\<close>
  divides one by the other: the result is positive infinity, not NaN.
\<close>

theorem calcular_sharpe_ratio_serie_constante:
  "std_s (map (\<lambda>x. x - (2 / 100) / 252) [1 / 1000, 1 / 1000]) = Fin 0
   \<and> calcular_sharpe_ratio [1 / 1000, 1 / 1000] (2 / 100) = PInf
   \<and> calcular_sharpe_ratio [1 / 1000, 1 / 1000] (2 / 100) \<noteq> NaN"
  by (simp add: calcular_sharpe_ratio_def mean_s_def std_s_def suma_desv2_def inf_signo_def)

text \<open>The Sortino ratio of the same series is NaN: there is no downside observation.\<close>

lemma calcular_sortino_ratio_serie_constante:
  "calcular_sortino_ratio [1 / 1000, 1 / 1000] (2 / 100) 0 = NaN"
  by (simp add: calcular_sortino_ratio_def mean_s_def np_ne_def)

subsection \<open>Beta\<close>

lemma suma_codesv_misma: "suma_codesv xs xs = suma_desv2 xs"
  by (simp add: suma_codesv_def suma_desv2_def zip_same_conv_map power2_eq_square o_def Let_def)

lemma calcular_beta_cociente:
  assumes "length a = length m" "2 \<le> length m" "var_pop m \<noteq> Fin 0"
  shows "calcular_beta a m =
     Inr (Fin (real (length m) / real (length m - 1) * (suma_codesv a m / suma_desv2 m)))"
proof -
  have ne: "m \<noteq> []" using assms(2) by auto
  have S: "suma_desv2 m \<noteq> 0" using assms(3) ne by (auto simp: var_pop_def)
  have n0: "real (length m) \<noteq> 0" using ne by simp
  have cov: "np_cov01 a m = Inr (Fin (suma_codesv a m / real (length m - 1)))"
    using assms(1,2) by (simp add: np_cov01_def)
  have var: "var_pop m = Fin (suma_desv2 m / real (length m))"
    using ne by (simp add: var_pop_def)
  have "suma_desv2 m / real (length m) \<noteq> 0" using S n0 by simp
  hence "calcular_beta a m =
     Inr (Fin (suma_codesv a m / real (length m - 1) / (suma_desv2 m / real (length m))))"
    by (simp add: calcular_beta_def cov var np_ne_def)
  thus ?thesis by (simp add: field_simps)
qed

lemma beta_misma_convencion_cociente:
  "2 \<le> length m \<Longrightarrow> ddof \<le> 1 \<Longrightarrow>
   beta_misma_convencion ddof a m = suma_codesv a m / suma_desv2 m"
  by (simp add: beta_misma_convencion_def)

text \<open>
  C9. For a series \<open>m\<close> of \<open>n \<ge> 2\<close> observations with nonzero variance, the beta of
  \<open>m\<close> against itself is \<open>n / (n - 1)\<close>, and the beta of any aligned series \<open>a\<close> against
  \<open>m\<close> is \<open>n / (n - 1)\<close> times the covariance over variance ratio computed with one
  divisor for both (either \<open>n\<close> or \<open>n - 1\<close>).
\<close>

theorem calcular_beta_inflada:
  assumes "length a = length m" "2 \<le> length m" "var_pop m \<noteq> Fin 0" "ddof \<le> 1"
  shows "calcular_beta m m = Inr (Fin (real (length m) / real (length m - 1)))
    \<and> calcular_beta a m =
        Inr (Fin (real (length m) / real (length m - 1) * beta_misma_convencion ddof a m))"
proof -
  have ne: "m \<noteq> []" using assms(2) by auto
  have S: "suma_desv2 m \<noteq> 0" using assms(3) ne by (auto simp: var_pop_def)
  have "calcular_beta m m = Inr (Fin (real (length m) / real (length m - 1)))"
    using calcular_beta_cociente [OF refl assms(2,3)] S by (simp add: suma_codesv_misma)
  moreover have "calcular_beta a m =
        Inr (Fin (real (length m) / real (length m - 1) * beta_misma_convencion ddof a m))"
    using calcular_beta_cociente [OF assms(1,2,3)]
      beta_misma_convencion_cociente [OF assms(2,4)] by simp
  ultimately show ?thesis by simp
qed

theorem calcular_beta_inflada_witness:
  "calcular_beta [0, 1, 5] [0, 1, 5] = Inr (Fin (3 / 2))
   \<and> calcular_beta [1, 0, 2] [0, 1, 5]
       = Inr (Fin (3 / 2 * beta_misma_convencion 1 [1, 0, 2] [0, 1, 5]))"
proof -
  have v: "var_pop [0, 1, 5] \<noteq> Fin 0" by (simp add: var_pop_def suma_desv2_def)
  show ?thesis using calcular_beta_inflada [of "[1, 0, 2]" "[0, 1, 5]" 1] v by simp
qed

subsection \<open>The optimizer\<close>

text \<open>
  What every call hands to the solver: the uniform start, which meets the bounds and the
  sum-to-one constraint itself, the bounds 0 and 1 on every weight, and the sum-to-one
  equality constraint. What the solver returns from there is outside the model.
\<close>

lemma pesos_iniciales_factibles:
  assumes "0 < n"
  shows "sum_list (pesos_iniciales n) = 1"
    and "\<forall>w\<in>set (pesos_iniciales n). 0 \<le> w \<and> w \<le> 1"
    and "length (pesos_iniciales n) = n"
  using assms by (simp_all add: pesos_iniciales_def sum_list_replicate)

lemma llamadas_limites:
  "limites (llamada_volatilidad returns) = replicate (columnas returns) (0, 1)"
  "limites (llamada_sharpe returns rf) = replicate (columnas returns) (0, 1)"
  "limites (llamada_target returns t) = replicate (columnas returns) (0, 1)"
  by (simp_all add: llamada_volatilidad_def llamada_sharpe_def llamada_target_def
      limites_pesos_def)

lemma llamadas_restriccion_suma:
  "restricciones (llamada_volatilidad returns) = [restriccion_suma]"
  "restricciones (llamada_sharpe returns rf) = [restriccion_suma]"
  "hd (restricciones (llamada_target returns t)) = restriccion_suma"
  by (simp_all add: llamada_volatilidad_def llamada_sharpe_def llamada_target_def)

text \<open>
  C2 (as amended). On a returns table with at least one row and a weight vector of
  matching length, \<open>volatilidad_con_objetivo\<close> is positive infinity when the annualised
  return of the portfolio is strictly below the target and the annualised volatility
  otherwise. The call made in target-return mode does not minimise it: its objective is
  the plain \<open>minimizar_volatilidad\<close>, and the target enters as an inequality constraint
  beside the sum-to-one constraint.
\<close>

theorem volatilidad_con_objetivo_y_llamada_target:
  "(length pesos = columnas returns \<and> filas returns \<noteq> [] \<longrightarrow>
     (\<exists>pr a. suma_filas returns pesos = Inr pr
        \<and> calcular_rendimiento_anualizado pr = Fin a
        \<and> (a < target \<longrightarrow> volatilidad_con_objetivo pesos returns target = Inr PInf)
        \<and> (target \<le> a \<longrightarrow> volatilidad_con_objetivo pesos returns target
               = Inr (calcular_volatilidad_anualizada pr))))
   \<and> objetivo (llamada_target returns target) = (\<lambda>w. minimizar_volatilidad w returns)
   \<and> restricciones (llamada_target returns target)
       = [restriccion_suma, restriccion_rendimiento returns target]"
  by (auto simp: volatilidad_con_objetivo_def llamada_target_def suma_filas_def
      calcular_rendimiento_anualizado_def mean_s_def np_sub_def)

theorem volatilidad_con_objetivo_y_llamada_target_witness:
  "volatilidad_con_objetivo [1 / 2, 1 / 2] \<lparr>columnas = 2, filas = [[0, 0], [0, 0]]\<rparr> (1 / 10)
     = Inr PInf
   \<and> volatilidad_con_objetivo [1 / 2, 1 / 2] \<lparr>columnas = 2, filas = [[0, 0], [0, 0]]\<rparr> (- 1 / 10)
     = Inr (Fin 0)
   \<and> objetivo (llamada_target \<lparr>columnas = 2, filas = [[0, 0], [0, 0]]\<rparr> (1 / 10)) [1 / 2, 1 / 2]
     = Inr (Fin 0)"
  using volatilidad_con_objetivo_y_llamada_target
      [of "[1 / 2, 1 / 2]" "\<lparr>columnas = 2, filas = [[0, 0], [0, 0]]\<rparr>" "1 / 10"]
    volatilidad_con_objetivo_y_llamada_target
      [of "[1 / 2, 1 / 2]" "\<lparr>columnas = 2, filas = [[0, 0], [0, 0]]\<rparr>" "- 1 / 10"]
  by (simp add: suma_filas_def suma_ponderada_def calcular_rendimiento_anualizado_def
      calcular_volatilidad_anualizada_def minimizar_volatilidad_def mean_s_def std_s_def
      suma_desv2_def np_sub_def)

text \<open>
  At equal weights on two assets that never move, with target 0.10, the annualised
  return 0 is below the target: the penalised objective is infinite there, and the
  objective of the target-return call is the volatility 0.
\<close>

theorem objetivo_target_no_penalizado:
  "\<not> (objetivo (llamada_target \<lparr>columnas = 2, filas = [[0, 0], [0, 0]]\<rparr> (1 / 10)) [1 / 2, 1 / 2]
        = volatilidad_con_objetivo [1 / 2, 1 / 2] \<lparr>columnas = 2, filas = [[0, 0], [0, 0]]\<rparr>
            (1 / 10))"
  by (simp add: llamada_target_def minimizar_volatilidad_def volatilidad_con_objetivo_def
      suma_filas_def suma_ponderada_def calcular_volatilidad_anualizada_def
      calcular_rendimiento_anualizado_def std_s_def mean_s_def suma_desv2_def np_sub_def)

text \<open>The two objectives on two assets that never move, at equal weights: the
  volatility is 0 and the negated Sharpe ratio is positive infinity.\<close>

lemma minimizar_volatilidad_inmovil: "minimizar_volatilidad [1 / 2, 1 / 2] \<lparr>columnas = 2, filas = [[0, 0], [0, 0]]\<rparr> = Inr (Fin 0)"
  by (simp add: minimizar_volatilidad_def suma_filas_def suma_ponderada_def
      calcular_volatilidad_anualizada_def std_s_def suma_desv2_def)

lemma maximizar_sharpe_inmovil: "maximizar_sharpe [1 / 2, 1 / 2] \<lparr>columnas = 2, filas = [[0, 0], [0, 0]]\<rparr> (2 / 100) = Inr PInf"
  by (simp add: maximizar_sharpe_def suma_filas_def suma_ponderada_def
      calcular_sharpe_ratio_anualizado_def std_s_def mean_s_def suma_desv2_def np_sub_def inf_signo_def)

text \<open>
  C10. Whatever the solver: without a target, when the solver answers the
  minimum-volatility call and the maximum-Sharpe call the optimizer returns the pair of
  the two answers, and an exception of either call is the optimizer's; with a target it
  returns the single answer to the target-return call, or that call's exception. Hence a
  result is a pair exactly without a target and a single vector exactly with one. The
  first call minimises \<open>minimizar_volatilidad\<close>, the second \<open>maximizar_sharpe\<close>, the
  target call \<open>minimizar_volatilidad\<close> again, all three from the uniform weights.
\<close>

theorem optimizar_portafolio_formas:
  "(minimize (llamada_volatilidad returns) = Inr wv
      \<and> minimize (llamada_sharpe returns rf) = Inr ws \<longrightarrow>
      optimizar_portafolio minimize returns None rf = Inr (Par wv ws))
   \<and> (minimize (llamada_target returns t) = Inr w \<longrightarrow>
      optimizar_portafolio minimize returns (Some t) rf = Inr (Unico w))
   \<and> (minimize (llamada_volatilidad returns) = Inl e \<longrightarrow>
      optimizar_portafolio minimize returns None rf = Inl e)
   \<and> (minimize (llamada_volatilidad returns) = Inr wv
      \<and> minimize (llamada_sharpe returns rf) = Inl e \<longrightarrow>
      optimizar_portafolio minimize returns None rf = Inl e)
   \<and> (minimize (llamada_target returns t) = Inl e \<longrightarrow>
      optimizar_portafolio minimize returns (Some t) rf = Inl e)
   \<and> (\<forall>res. optimizar_portafolio minimize returns None rf = Inr res \<longrightarrow>
      (\<exists>wv ws. res = Par wv ws
         \<and> minimize (llamada_volatilidad returns) = Inr wv
         \<and> minimize (llamada_sharpe returns rf) = Inr ws))
   \<and> (\<forall>res. optimizar_portafolio minimize returns (Some t) rf = Inr res \<longrightarrow>
      (\<exists>w. res = Unico w \<and> minimize (llamada_target returns t) = Inr w))
   \<and> objetivo (llamada_volatilidad returns) = (\<lambda>pesos. minimizar_volatilidad pesos returns)
   \<and> objetivo (llamada_sharpe returns rf) = (\<lambda>pesos. maximizar_sharpe pesos returns rf)
   \<and> objetivo (llamada_target returns t) = (\<lambda>pesos. minimizar_volatilidad pesos returns)
   \<and> x0 (llamada_volatilidad returns)
       = replicate (columnas returns) (1 / real (columnas returns))
   \<and> x0 (llamada_sharpe returns rf) = x0 (llamada_volatilidad returns)
   \<and> x0 (llamada_target returns t) = x0 (llamada_volatilidad returns)"
  by (auto simp: optimizar_portafolio_def llamada_volatilidad_def llamada_sharpe_def
      llamada_target_def pesos_iniciales_def split: sum.splits)

theorem optimizar_portafolio_formas_witness:
  "optimizar_portafolio solver_prueba \<lparr>columnas = 2, filas = [[0, 0], [0, 0]]\<rparr> None (2 / 100)
     = Inr (Par [1 / 2, 1 / 2] [1, 0])
   \<and> optimizar_portafolio solver_prueba \<lparr>columnas = 2, filas = [[0, 0], [0, 0]]\<rparr>
        (Some (1 / 10)) (2 / 100)
     = Inr (Unico [0, 1])
   \<and> optimizar_portafolio (\<lambda>c. Inl ValueError) \<lparr>columnas = 2, filas = [[0, 0], [0, 0]]\<rparr>
        None (2 / 100) = Inl ValueError"
proof -
  let ?R = "\<lparr>columnas = 2, filas = [[0, 0], [0, 0 :: real]]\<rparr>"
  have v: "solver_prueba (llamada_volatilidad ?R) = Inr [1 / 2, 1 / 2]"
    using minimizar_volatilidad_inmovil
    by (simp add: solver_prueba_def llamada_volatilidad_def pesos_iniciales_def numeral_2_eq_2)
  have s: "solver_prueba (llamada_sharpe ?R (2 / 100)) = Inr [1, 0]"
    using maximizar_sharpe_inmovil
    by (simp add: solver_prueba_def llamada_sharpe_def pesos_iniciales_def numeral_2_eq_2)
  have t: "solver_prueba (llamada_target ?R (1 / 10)) = Inr [0, 1]"
    using minimizar_volatilidad_inmovil
    by (simp add: solver_prueba_def llamada_target_def pesos_iniciales_def numeral_2_eq_2)
  note P = optimizar_portafolio_formas [of solver_prueba ?R "[1 / 2, 1 / 2]" "2 / 100" "[1, 0]" "1 / 10" "[0, 1]"
      ValueError]
  note E = optimizar_portafolio_formas [of "\<lambda>c. Inl ValueError" ?R "[]" "2 / 100" "[]" "1 / 10" "[]" ValueError]
  have a: "optimizar_portafolio solver_prueba ?R None (2 / 100)
     = Inr (Par [1 / 2, 1 / 2] [1, 0])"
    by (rule mp [OF P [THEN conjunct1]]) (simp only: v s simp_thms)
  have b: "optimizar_portafolio solver_prueba ?R (Some (1 / 10)) (2 / 100) = Inr (Unico [0, 1])"
    by (rule mp [OF P [THEN conjunct2, THEN conjunct1]]) (rule t)
  have c: "optimizar_portafolio (\<lambda>c. Inl ValueError) ?R None (2 / 100) = Inl ValueError"
    by (rule mp [OF E [THEN conjunct2, THEN conjunct2, THEN conjunct1]]) (rule refl)
  from a b c show ?thesis by (intro conjI)
qed

subsection \<open>Returns and cumulative returns of a price table\<close>

lemma map2_map_right: "map2 f xs (map g ys) = map2 (\<lambda>x y. f x (g y)) xs ys"
  by (simp add: zip_map2 case_prod_unfold)

lemma map2_cong_right:
  assumes "list_all P ys" "\<And>x y. P y \<Longrightarrow> f x y = g x y"
  shows "map2 f xs ys = map2 g xs ys"
proof -
  have "\<And>x y. (x, y) \<in> set (zip xs ys) \<Longrightarrow> f x y = g x y"
    using assms by (auto simp: list_all_iff dest: set_zip_rightD)
  thus ?thesis by auto
qed

lemma pct_fila:
  assumes "list_all (\<lambda>p. p \<noteq> 0) anterior"
  shows "map2 (\<lambda>p q. np_sub (np_div (Fin p) q) (Fin 1)) fila (map Fin anterior)
         = map2 (\<lambda>p q. Fin (p / q - 1)) fila anterior"
  unfolding map2_map_right
  by (rule map2_cong_right [OF assms]) (simp add: np_sub_def)

lemma pct_resto:
  assumes "list_all (list_all (\<lambda>p. p \<noteq> 0)) (butlast (anterior # resto))"
  shows "map2 (map2 (\<lambda>p q. np_sub (np_div (Fin p) q) (Fin 1))) resto
           (map (map Fin) (butlast (anterior # resto)))
         = pct_filas_spec anterior resto"
  using assms
proof (induction resto arbitrary: anterior)
  case Nil
  show ?case by simp
next
  case (Cons fila resto)
  from Cons.prems have a: "list_all (\<lambda>p. p \<noteq> 0) anterior"
    and r: "list_all (list_all (\<lambda>p. p \<noteq> 0)) (butlast (fila # resto))"
    by simp_all
  show ?case using Cons.IH [OF r] pct_fila [OF a, of fila] by simp
qed

lemma pct_primera:
  "length primera = c \<Longrightarrow>
   map2 (\<lambda>p q. np_sub (np_div (Fin p) q) (Fin 1)) primera (replicate c NaN) = replicate c NaN"
  by (rule nth_equalityI) (simp_all add: np_sub_def)

lemma sin_nan_fila: "list_all (\<lambda>x. x \<noteq> NaN) (map2 (\<lambda>p q. Fin (p / q - 1)) fila anterior)"
  by (auto simp: list_all_iff)

lemma sin_nan_pct: "list_all (list_all (\<lambda>x. x \<noteq> NaN)) (pct_filas_spec anterior resto)"
  by (induction resto arbitrary: anterior) (simp_all add: sin_nan_fila)

lemma filter_todos: "list_all P xs \<Longrightarrow> filter P xs = xs"
  by (simp add: list_all_iff)

lemma length_pct: "length (pct_filas_spec anterior resto) = length resto"
  by (induction resto arbitrary: anterior) simp_all

lemma returns_forma:
  assumes "filas df = primera # resto" "bien_formado df" "0 < columnas df" "divisores_no_nulos df"
  shows "dropna (pct_change df) = \<lparr>columnas = columnas df, filas = pct_filas_spec primera resto\<rparr>"
proof -
  have len: "length primera = columnas df" using assms(1,2) by (simp add: bien_formado_def)
  have nz: "list_all (list_all (\<lambda>p. p \<noteq> 0)) (butlast (primera # resto))"
    using assms(1,4) by (simp add: divisores_no_nulos_def)
  have "filas (pct_change df) = replicate (columnas df) NaN # pct_filas_spec primera resto"
    using assms(1) pct_primera [OF len] pct_resto [OF nz]
    by (simp add: pct_change_def shift1_def)
  moreover have "\<not> list_all (\<lambda>x. x \<noteq> NaN) (replicate (columnas df) NaN)"
    using assms(3) by (simp add: list_all_iff)
  ultimately show ?thesis
    using filter_todos [OF sin_nan_pct, of primera resto]
    by (simp add: dropna_def pct_change_def)
qed







lemma metricas_no_vacia:
  assumes "filas df = primera # resto" "bien_formado df" "0 < columnas df" "divisores_no_nulos df"
  shows "\<exists>norm. calcular_metricas df =
     Inr (\<lparr>columnas = columnas df, filas = pct_filas_spec primera resto\<rparr>,
          mapear (\<lambda>x. np_sub x (Fin 1))
            (cumprod (mapear (np_add (Fin 1))
               \<lparr>columnas = columnas df, filas = pct_filas_spec primera resto\<rparr>)),
          norm)"
  using assms(1) returns_forma [OF assms]
  by (simp add: calcular_metricas_def Let_def)

text \<open>
  C8 (as amended). On a well-formed price table with at least one column whose prices
  before the last row are nonzero: with no row at all \<open>calcular_metricas\<close> raises
  IndexError (from \<^verbatim>\<open>df.iloc[0]\<close>); with one row or more it raises nothing, and its
  returns are the simple percent changes between consecutive rows, one row fewer than
  the price table (none for a single row).
\<close>

theorem calcular_metricas_returns:
  assumes "bien_formado df" "0 < columnas df" "divisores_no_nulos df"
  shows "(filas df = [] \<longrightarrow> calcular_metricas df = Inl IndexError)
    \<and> (filas df \<noteq> [] \<longrightarrow>
        (\<exists>cum norm. calcular_metricas df =
           Inr (\<lparr>columnas = columnas df,
                 filas = pct_filas_spec (hd (filas df)) (tl (filas df))\<rparr>, cum, norm))
        \<and> length (pct_filas_spec (hd (filas df)) (tl (filas df))) = length (filas df) - 1)"
proof (cases "filas df")
  case Nil
  thus ?thesis by (simp add: calcular_metricas_def)
next
  case (Cons primera resto)
  from metricas_no_vacia [OF Cons assms] obtain norm where
    "calcular_metricas df =
     Inr (\<lparr>columnas = columnas df, filas = pct_filas_spec primera resto\<rparr>,
          mapear (\<lambda>x. np_sub x (Fin 1))
            (cumprod (mapear (np_add (Fin 1))
               \<lparr>columnas = columnas df, filas = pct_filas_spec primera resto\<rparr>)),
          norm)" by blast
  thus ?thesis using Cons by (simp add: length_pct)
qed

theorem calcular_metricas_returns_witness:
  "calcular_metricas \<lparr>columnas = 1, filas = []\<rparr> = Inl IndexError
   \<and> (\<exists>cum norm. calcular_metricas \<lparr>columnas = 2, filas = [[100, 50], [110, 25], [99, 50]]\<rparr>
        = Inr (\<lparr>columnas = 2,
                filas = [[Fin (1 / 10), Fin (- (1 / 2))], [Fin (- (1 / 10)), Fin 1]]\<rparr>,
               cum, norm))"
proof -
  have a: "bien_formado \<lparr>columnas = 1, filas = ([] :: real list list)\<rparr>"
    "divisores_no_nulos \<lparr>columnas = 1, filas = []\<rparr>"
    by (simp_all add: bien_formado_def divisores_no_nulos_def)
  have b: "bien_formado \<lparr>columnas = 2, filas = [[100, 50], [110, 25], [99, 50 :: real]]\<rparr>"
    "divisores_no_nulos \<lparr>columnas = 2, filas = [[100, 50], [110, 25], [99, 50]]\<rparr>"
    by (simp_all add: bien_formado_def divisores_no_nulos_def)
  show ?thesis
    using calcular_metricas_returns [OF a(1) _ a(2)] calcular_metricas_returns [OF b(1) _ b(2)] by simp
qed

text \<open>
  A price table with a single observation raises nothing: the returns and the cumulative
  returns are empty tables.
\<close>

theorem calcular_metricas_una_observacion:
  "\<not> isl (calcular_metricas \<lparr>columnas = 1, filas = [[100]]\<rparr>)
   \<and> calcular_metricas \<lparr>columnas = 1, filas = [[100]]\<rparr>
      = Inr (\<lparr>columnas = 1, filas = []\<rparr>, \<lparr>columnas = 1, filas = []\<rparr>,
             \<lparr>columnas = 1, filas = [[Fin 100]]\<rparr>)"
  by (simp add: calcular_metricas_def pct_change_def shift1_def dropna_def cumprod_def
      mapear_def np_sub_def Let_def)




section \<open>Properties in rounded arithmetic\<close>

subsection \<open>Binary64 rounding is monotone and accurate\<close>

lemma redondeo_par_error: "\<bar>of_int (redondeo_par y) - y\<bar> \<le> 1 / 2"
  unfolding redondeo_par_def Let_def by (auto simp: abs_le_iff)

lemma redondeo_par_int: "redondeo_par (of_int k) = k"
  by (simp add: redondeo_par_def)

lemma redondeo_par_mono: "x \<le> y \<Longrightarrow> redondeo_par x \<le> redondeo_par y"
proof -
  assume xy: "x \<le> y"
  have fl: "\<lfloor>x\<rfloor> \<le> \<lfloor>y\<rfloor>" using xy by (rule floor_mono)
  show ?thesis
  proof (cases "\<lfloor>x\<rfloor> = \<lfloor>y\<rfloor>")
    case True
    thus ?thesis using xy unfolding redondeo_par_def Let_def by auto
  next
    case False
    hence "\<lfloor>x\<rfloor> + 1 \<le> \<lfloor>y\<rfloor>" using fl by linarith
    moreover have "redondeo_par x \<le> \<lfloor>x\<rfloor> + 1" unfolding redondeo_par_def Let_def by auto
    moreover have "\<lfloor>y\<rfloor> \<le> redondeo_par y" unfolding redondeo_par_def Let_def by auto
    ultimately show ?thesis by linarith
  qed
qed

lemma powr_powi: "2 powr real_of_int k = (2::real) powi k"
  by (rule powr_real_of_int') simp_all

lemma exponente_cotas:
  assumes "x \<noteq> 0"
  shows "2 powi exponente x \<le> \<bar>x\<bar>" and "\<bar>x\<bar> < 2 powi (exponente x + 1)"
proof -
  have pos: "0 < \<bar>x\<bar>" using assms by simp
  have "\<lfloor>log 2 \<bar>x\<bar>\<rfloor> = exponente x" by (simp add: exponente_def)
  hence "2 powr real_of_int (exponente x) \<le> \<bar>x\<bar>
      \<and> \<bar>x\<bar> < 2 powr real_of_int (exponente x + 1)"
    using floor_log_eq_powr_iff [OF pos, of 2 "exponente x"] by simp
  thus "2 powi exponente x \<le> \<bar>x\<bar>" and "\<bar>x\<bar> < 2 powi (exponente x + 1)"
    unfolding powr_powi by blast+
qed

lemma exponente_eq:
  assumes "2 powi e \<le> \<bar>x\<bar>" "\<bar>x\<bar> < 2 powi (e + 1)"
  shows "exponente x = e"
proof -
  have "0 < (2::real) powi e" by simp
  hence pos: "0 < \<bar>x\<bar>" using assms(1) by linarith
  have "2 powr real_of_int e \<le> \<bar>x\<bar> \<and> \<bar>x\<bar> < 2 powr real_of_int (e + 1)"
    unfolding powr_powi using assms by blast
  thus ?thesis unfolding exponente_def
    using floor_log_eq_powr_iff [OF pos, of 2 e] by simp
qed

lemma redondeo64_eval:
  assumes "2 powi e \<le> \<bar>x\<bar>" "\<bar>x\<bar> < 2 powi (e + 1)"
  shows "redondeo64 x = 2 powi (e - 52) * of_int (redondeo_par (x / 2 powi (e - 52)))"
proof -
  have "0 < (2::real) powi e" by simp
  hence "0 < \<bar>x\<bar>" using assms(1) by linarith
  hence "x \<noteq> 0" by simp
  thus ?thesis by (simp add: redondeo64_def Let_def exponente_eq [OF assms])
qed

lemma redondeo64_error: "\<bar>redondeo64 x - x\<bar> \<le> 2 powi (- 53) * \<bar>x\<bar>"
proof (cases "x = 0")
  case True
  thus ?thesis by (simp add: redondeo64_def)
next
  case False
  define e where "e = exponente x"
  define ulp :: real where "ulp = 2 powi (e - 52)"
  have ulp0: "0 < ulp" by (simp add: ulp_def)
  have r: "redondeo64 x = ulp * of_int (redondeo_par (x / ulp))"
    using False by (simp add: redondeo64_def Let_def e_def ulp_def)
  have "redondeo64 x - x = ulp * (of_int (redondeo_par (x / ulp)) - x / ulp)"
    using ulp0 by (simp add: r algebra_simps)
  hence "\<bar>redondeo64 x - x\<bar> = ulp * \<bar>of_int (redondeo_par (x / ulp)) - x / ulp\<bar>"
    using ulp0 by (simp add: abs_mult)
  also have "\<dots> \<le> ulp * (1 / 2)"
    using ulp0 redondeo_par_error [of "x / ulp"] by (intro mult_left_mono) auto
  also have "ulp * (1 / 2) = 2 powi (- 53) * 2 powi e"
    by (simp add: ulp_def power_int_diff power_int_minus)
  also have "\<dots> \<le> 2 powi (- 53) * \<bar>x\<bar>"
    using exponente_cotas(1) [OF False] by (intro mult_left_mono) (auto simp: e_def)
  finally show ?thesis .
qed

lemma redondeo_par_menos: "redondeo_par (- y) = - redondeo_par y"
proof (cases "y = of_int \<lfloor>y\<rfloor>")
  case True
  then obtain k where "y = of_int k" by blast
  hence "- y = of_int (- k)" by simp
  thus ?thesis using \<open>y = of_int k\<close> by (metis redondeo_par_int)
next
  case False
  hence fl: "\<lfloor>- y\<rfloor> = - \<lfloor>y\<rfloor> - 1"
    by (metis ceiling_altdef ceiling_def add_diff_cancel_right' minus_diff_eq neg_equal_iff_equal
        uminus_add_conv_diff)
  have d: "0 < y - of_int \<lfloor>y\<rfloor>" using False by (smt (verit) of_int_floor_le)
  show ?thesis
    unfolding redondeo_par_def Let_def fl using d by (auto simp: algebra_simps)
qed

lemma exponente_menos: "exponente (- x) = exponente x"
  by (simp add: exponente_def)

lemma redondeo64_menos: "redondeo64 (- x) = - redondeo64 x"
  by (simp add: redondeo64_def Let_def exponente_menos redondeo_par_menos)

lemma redondeo64_signo:
  shows "0 \<le> x \<Longrightarrow> 0 \<le> redondeo64 x" and "x \<le> 0 \<Longrightarrow> redondeo64 x \<le> 0"
proof -
  have u: "(2::real) powi (- 53) \<le> 1" by (simp add: power_int_minus inverse_eq_divide)
  have u0: "0 \<le> (2::real) powi (- 53)" by simp
  { assume "0 \<le> x"
    hence "2 powi (- 53) * \<bar>x\<bar> \<le> x" using u by (simp add: mult_left_le_one_le)
    thus "0 \<le> redondeo64 x" using redondeo64_error [of x] by linarith }
  { assume "x \<le> 0"
    hence "2 powi (- 53) * \<bar>x\<bar> \<le> - x" using u
      by (metis abs_of_nonpos mult_left_le_one_le neg_0_le_iff_le u0)
    thus "redondeo64 x \<le> 0" using redondeo64_error [of x] by linarith }
qed

lemma redondeo64_binada:
  assumes "0 < x"
  shows "2 powi exponente x \<le> redondeo64 x" and "redondeo64 x \<le> 2 powi (exponente x + 1)"
proof -
  define e where "e = exponente x"
  define ulp :: real where "ulp = 2 powi (e - 52)"
  have ulp0: "0 < ulp" by (simp add: ulp_def)
  have x0: "x \<noteq> 0" using assms by simp
  have r: "redondeo64 x = ulp * of_int (redondeo_par (x / ulp))"
    using x0 by (simp add: redondeo64_def Let_def e_def ulp_def)
  have lo: "2 powi e = ulp * of_int (2 ^ 52)"
    by (simp add: ulp_def power_int_diff)
  have hi: "2 powi (e + 1) = ulp * of_int (2 ^ 53)"
    by (simp add: ulp_def power_int_diff power_int_add)
  have "2 powi e \<le> x" using exponente_cotas(1) [OF x0] assms by (simp add: e_def)
  hence "ulp * of_int (2 ^ 52) \<le> x" by (simp only: lo)
  hence "of_int (2 ^ 52) \<le> x / ulp" using ulp0 by (simp add: pos_le_divide_eq mult.commute)
  hence "redondeo_par (of_int (2 ^ 52)) \<le> redondeo_par (x / ulp)" by (rule redondeo_par_mono)
  hence a: "(2 ^ 52 :: int) \<le> redondeo_par (x / ulp)" by (simp only: redondeo_par_int)
  have "x \<le> 2 powi (e + 1)" using exponente_cotas(2) [OF x0] assms by (simp add: e_def)
  hence "x \<le> ulp * of_int (2 ^ 53)" by (simp only: hi)
  hence "x / ulp \<le> of_int (2 ^ 53)" using ulp0 by (simp add: pos_divide_le_eq mult.commute)
  hence "redondeo_par (x / ulp) \<le> redondeo_par (of_int (2 ^ 53))" by (rule redondeo_par_mono)
  hence b: "redondeo_par (x / ulp) \<le> (2 ^ 53 :: int)" by (simp only: redondeo_par_int)
  have "real_of_int (2 ^ 52) \<le> real_of_int (redondeo_par (x / ulp))"
    using a by (simp only: of_int_le_iff)
  hence "ulp * of_int (2 ^ 52) \<le> ulp * of_int (redondeo_par (x / ulp))"
    using ulp0 by (intro mult_left_mono) simp_all
  thus "2 powi exponente x \<le> redondeo64 x" by (simp only: r lo e_def [symmetric])
  have "real_of_int (redondeo_par (x / ulp)) \<le> real_of_int (2 ^ 53)"
    using b by (simp only: of_int_le_iff)
  hence "ulp * of_int (redondeo_par (x / ulp)) \<le> ulp * of_int (2 ^ 53)"
    using ulp0 by (intro mult_left_mono) simp_all
  thus "redondeo64 x \<le> 2 powi (exponente x + 1)" by (simp only: r hi e_def [symmetric])
qed

lemma exponente_mono:
  assumes "0 < x" "x \<le> y"
  shows "exponente x \<le> exponente y"
  unfolding exponente_def using assms by (intro floor_mono) (simp add: log_le_cancel_iff)

lemma redondeo64_mono_pos:
  assumes "0 < x" "x \<le> y"
  shows "redondeo64 x \<le> redondeo64 y"
proof (cases "exponente x = exponente y")
  case True
  define ulp :: real where "ulp = 2 powi (exponente y - 52)"
  have ulp0: "0 < ulp" by (simp add: ulp_def)
  have "x / ulp \<le> y / ulp" using assms(2) ulp0 by (simp add: divide_right_mono)
  hence "redondeo_par (x / ulp) \<le> redondeo_par (y / ulp)" by (rule redondeo_par_mono)
  hence "ulp * of_int (redondeo_par (x / ulp)) \<le> ulp * of_int (redondeo_par (y / ulp))"
    using ulp0 by (intro mult_left_mono) simp_all
  thus ?thesis using assms True by (simp add: redondeo64_def Let_def ulp_def)
next
  case False
  have y0: "0 < y" using assms by linarith
  have "exponente x + 1 \<le> exponente y" using False exponente_mono [OF assms] by linarith
  hence "(2::real) powi (exponente x + 1) \<le> 2 powi exponente y"
    by (intro power_int_increasing) simp_all
  thus ?thesis
    using redondeo64_binada(2) [OF assms(1)] redondeo64_binada(1) [OF y0] by linarith
qed

lemma redondeo64_mono: "x \<le> y \<Longrightarrow> redondeo64 x \<le> redondeo64 y"
proof -
  assume xy: "x \<le> y"
  consider "0 < x" | "x \<le> 0" "0 \<le> y" | "y < 0" by linarith
  thus ?thesis
  proof cases
    case 1
    thus ?thesis using xy by (rule redondeo64_mono_pos)
  next
    case 2
    thus ?thesis using redondeo64_signo [of x] redondeo64_signo [of y] by linarith
  next
    case 3
    hence "0 < - y" "- y \<le> - x" using xy by simp_all
    hence "redondeo64 (- y) \<le> redondeo64 (- x)" by (rule redondeo64_mono_pos)
    thus ?thesis by (simp add: redondeo64_menos)
  qed
qed

lemmas ev = power_int_minus redondeo_par_def Let_def

lemma r_0: "redondeo64 0 = 0"
  by (simp add: redondeo64_def)

lemma r_d01: "redondeo64 (0 + d01) = d01" "redondeo64 d01 = d01"
  by (subst redondeo64_eval [where e = "-4"], simp_all add: d01_def ev)+

lemma r_sum2: "redondeo64 (d01 + d01) = 3602879701896397 / 2 ^ 54"
  by (subst redondeo64_eval [where e = "-3"]) (simp_all add: d01_def ev)

lemma r_sum3: "redondeo64 (3602879701896397 / 2 ^ 54 + d01) = 5404319552844596 / 2 ^ 54"
  by (subst redondeo64_eval [where e = "-2"]) (simp_all add: d01_def ev)

lemma r_s3: "redondeo64 (0 + 5404319552844596 / 2 ^ 54) = 5404319552844596 / 2 ^ 54"
  by (subst redondeo64_eval [where e = "-2"]) (simp_all add: ev)

lemma r_div3: "redondeo64 (5404319552844596 / 2 ^ 54 / real (length [d01, d01, d01])) = d01s"
  by (subst redondeo64_eval [where e = "-4"]) (simp_all add: ev d01s_def)

lemma suma3: "suma_pares redondeo64 [d01, d01, d01] = 5404319552844596 / 2 ^ 54"
proof -
  have "suma_pares redondeo64 [d01, d01, d01] = suma_sec redondeo64 0 [d01, d01, d01]"
    by (simp add: suma_pares.simps)
  also have "\<dots> = redondeo64 (redondeo64 (redondeo64 (0 + d01) + d01) + d01)"
    by (simp only: suma_sec.simps)
  also have "\<dots> = 5404319552844596 / 2 ^ 54"
    by (simp only: r_d01 r_sum2 r_sum3)
  finally show ?thesis .
qed

lemma media3: "media_rd redondeo64 [d01, d01, d01] = Fin d01s"
proof -
  have "media_rd redondeo64 [d01, d01, d01]
      = Fin (redondeo64 (redondeo64 (0 + suma_pares redondeo64 [d01, d01, d01])
          / real (length [d01, d01, d01])))"
    unfolding media_rd_def by (simp only: list.simps if_False)
  also have "\<dots> = Fin d01s" by (simp only: suma3 r_s3 r_div3)
  finally show ?thesis .
qed

lemma d01s_mayor: "d01 < d01s"
  by (simp add: d01_def d01s_def)

lemma rv_mono: "redondeo_valido u rd \<Longrightarrow> x \<le> y \<Longrightarrow> rd x \<le> rd y"
  by (simp add: redondeo_valido_def)

lemma rv_error: "redondeo_valido u rd \<Longrightarrow> \<bar>rd x - x\<bar> \<le> u * \<bar>x\<bar>"
  by (simp add: redondeo_valido_def)

lemma rv_u: "redondeo_valido u rd \<Longrightarrow> 0 \<le> u \<and> u \<le> 1 / 32"
  by (simp add: redondeo_valido_def)

lemma rv_cero: "redondeo_valido u rd \<Longrightarrow> rd 0 = 0"
  using rv_error [of u rd 0] by simp

lemma rv_pos:
  assumes "redondeo_valido u rd" "0 \<le> x"
  shows "0 \<le> rd x" and "rd x \<le> (1 + u) * x" and "(1 - u) * x \<le> rd x"
proof -
  have "rd 0 \<le> rd x" using assms by (intro rv_mono [OF assms(1)])
  thus "0 \<le> rd x" using rv_cero [OF assms(1)] by simp
  have "\<bar>rd x - x\<bar> \<le> u * x" using rv_error [OF assms(1), of x] assms(2) by simp
  thus "rd x \<le> (1 + u) * x" and "(1 - u) * x \<le> rd x" by (simp_all add: algebra_simps abs_le_iff)
qed

lemma lerp_igual:
  assumes "redondeo_valido u rd" "rd a = a"
  shows "lerp_rd rd a a t = a"
  using assms rv_cero [OF assms(1)] by (simp add: lerp_rd_def)

lemma cubo_cota:
  assumes "0 \<le> u" "u \<le> 1 / 32"
  shows "(1 + u) * ((1 + u) * ((1 + u) / 2)) \<le> (1::real)"
proof -
  have a: "(1 + u) \<le> 33 / 32" "0 \<le> 1 + u" using assms by simp_all
  have "(1 + u) * (1 + u) \<le> (33 / 32) * (33 / 32)" using a by (intro mult_mono) simp_all
  hence "(1 + u) * ((1 + u) * (1 + u)) \<le> (33 / 32) * ((33 / 32) * (33 / 32))"
    using a by (intro mult_mono) simp_all
  thus ?thesis by simp
qed

lemma lerp_cota:
  assumes V: "redondeo_valido u rd" and ab: "a \<le> b" and ra: "rd a = a" and t: "0 \<le> t"
  shows "a \<le> lerp_rd rd a b t"
proof -
  define d where "d = rd (b - a)"
  have d0: "0 \<le> d" unfolding d_def using ab by (intro rv_pos(1) [OF V]) simp
  have dle: "d \<le> (1 + u) * (b - a)" unfolding d_def using ab by (intro rv_pos(2) [OF V]) simp
  have u: "0 \<le> u" "u \<le> 1 / 32" using rv_u [OF V] by simp_all
  show ?thesis
  proof (cases "1 / 2 \<le> t")
    case False
    have "0 \<le> rd (d * t)" using d0 t by (intro rv_pos(1) [OF V]) simp
    hence "rd a \<le> rd (a + rd (d * t))" by (intro rv_mono [OF V]) simp
    thus ?thesis using False by (simp add: lerp_rd_def d_def [symmetric] ra)
  next
    case True
    define w where "w = rd (1 - t)"
    have "1 - t \<le> 1 / 2" using True by simp
    hence "w \<le> rd (1 / 2)" unfolding w_def by (rule rv_mono [OF V])
    also have "\<dots> \<le> (1 + u) * (1 / 2)" by (intro rv_pos(2) [OF V]) simp
    finally have w: "w \<le> (1 + u) / 2" by simp
    have "d * w \<le> d * ((1 + u) / 2)" using d0 w by (rule mult_left_mono [rotated])
    hence "rd (d * w) \<le> rd (d * ((1 + u) / 2))" by (rule rv_mono [OF V])
    also have "\<dots> \<le> (1 + u) * (d * ((1 + u) / 2))"
      using d0 u by (intro rv_pos(2) [OF V]) simp
    also have "\<dots> \<le> (1 + u) * (((1 + u) * (b - a)) * ((1 + u) / 2))"
      using dle u by (intro mult_left_mono mult_right_mono) simp_all
    also have "\<dots> = ((1 + u) * ((1 + u) * ((1 + u) / 2))) * (b - a)" by (simp only: ac_simps)
    also have "\<dots> \<le> 1 * (b - a)"
      using cubo_cota [OF u] ab by (intro mult_right_mono) simp_all
    finally have "a \<le> b - rd (d * w)" by simp
    hence "rd a \<le> rd (b - rd (d * w))" by (rule rv_mono [OF V])
    thus ?thesis using True by (simp add: lerp_rd_def d_def [symmetric] w_def [symmetric] ra)
  qed
qed

lemma cuantil_rd_interior:
  assumes "0 \<le> q" "q \<le> 1" "0 \<le> rd (rd (q * 100) / 100)" "rd (rd (q * 100) / 100) \<le> 1"
    "xs \<noteq> []"
  shows "cuantil_rd rd xs q =
     (if real (length xs - 1) \<le> rd (real (length xs - 1) * rd (rd (q * 100) / 100))
      then Inr (Fin (lerp_rd rd (last (sort xs)) (last (sort xs))
                  (rd (rd (real (length xs - 1) * rd (rd (q * 100) / 100)) + 1))))
      else if rd (real (length xs - 1) * rd (rd (q * 100) / 100)) < 0
      then Inr (Fin (lerp_rd rd (sort xs ! 0) (sort xs ! 0)
                  (rd (rd (real (length xs - 1) * rd (rd (q * 100) / 100))))))
      else Inr (Fin (lerp_rd rd
             (sort xs ! nat \<lfloor>rd (real (length xs - 1) * rd (rd (q * 100) / 100))\<rfloor>)
             (sort xs ! (nat \<lfloor>rd (real (length xs - 1) * rd (rd (q * 100) / 100))\<rfloor> + 1))
             (rd (rd (real (length xs - 1) * rd (rd (q * 100) / 100))
                  - real (nat \<lfloor>rd (real (length xs - 1) * rd (rd (q * 100) / 100))\<rfloor>))))))"
proof -
  have c1: "\<not> (q < 0 \<or> 1 < q)" using assms(1,2) by linarith
  have c2: "\<not> (rd (rd (q * 100) / 100) < 0 \<or> 1 < rd (rd (q * 100) / 100))"
    using assms(3,4) by linarith
  show ?thesis unfolding cuantil_rd_def Let_def by (simp only: c1 c2 assms(5) if_False)
qed

lemma cuantil_rd_cota:
  assumes V: "redondeo_valido u rd" and ne: "xs \<noteq> []"
    and rep: "\<forall>x\<in>set xs. rd x = x"
    and q: "0 \<le> q" "q \<le> 1" "0 \<le> rd (rd (q * 100) / 100)" "rd (rd (q * 100) / 100) \<le> 1"
  shows "\<exists>v. cuantil_rd rd xs q = Inr (Fin v) \<and> (\<exists>x\<in>set xs. x \<le> v)"
proof -
  define s where "s = sort xs"
  define n where "n = length xs"
  define h where "h = rd (real (n - 1) * rd (rd (q * 100) / 100))"
  have ls: "length s = n" and ss: "set s = set xs" and sorted: "sorted s"
    by (simp_all add: s_def n_def)
  have n0: "0 < n" using ne by (simp add: n_def)
  have sne: "s \<noteq> []" using ls n0 by auto
  have reps: "\<And>i. i < n \<Longrightarrow> rd (s ! i) = s ! i" using rep ss ls by (metis nth_mem)
  have mem: "\<And>i. i < n \<Longrightarrow> s ! i \<in> set xs" using ss ls by (metis nth_mem)
  have h0: "0 \<le> h" unfolding h_def using q(3) by (intro rv_pos(1) [OF V]) simp
  consider (arriba) "real (n - 1) \<le> h" | (medio) "h < real (n - 1)" by linarith
  thus ?thesis
  proof cases
    case arriba
    have l: "last s = s ! (n - 1)" using sne ls by (simp add: last_conv_nth)
    have "cuantil_rd rd xs q = Inr (Fin (lerp_rd rd (last s) (last s) (rd (h + 1))))"
      unfolding cuantil_rd_interior [where rd = rd and q = q and xs = xs, OF q ne] s_def [symmetric] n_def [symmetric]
        h_def [symmetric]
      using arriba by (simp only: if_True)
    also have "lerp_rd rd (last s) (last s) (rd (h + 1)) = s ! (n - 1)"
      unfolding l using n0 by (intro lerp_igual [OF V] reps) simp
    finally show ?thesis using mem [of "n - 1"] n0 by auto
  next
    case medio
    define lo where "lo = nat \<lfloor>h\<rfloor>"
    have "real lo \<le> h" unfolding lo_def using h0 by simp
    hence g0: "0 \<le> rd (h - real lo)" by (intro rv_pos(1) [OF V]) simp
    have "real lo < real (n - 1)" using \<open>real lo \<le> h\<close> medio by linarith
    hence lo: "lo + 1 < n" by simp
    have ord: "s ! lo \<le> s ! (lo + 1)" using sorted lo ls by (intro sorted_nth_mono) simp_all
    have c: "\<not> real (n - 1) \<le> h" "\<not> h < 0" using medio h0 by linarith+
    have "cuantil_rd rd xs q = Inr (Fin (lerp_rd rd (s ! lo) (s ! (lo + 1)) (rd (h - real lo))))"
      unfolding cuantil_rd_interior [where rd = rd and q = q and xs = xs, OF q ne] s_def [symmetric] n_def [symmetric]
        h_def [symmetric] lo_def [symmetric]
      by (simp only: c if_False)
    moreover have "s ! lo \<le> lerp_rd rd (s ! lo) (s ! (lo + 1)) (rd (h - real lo))"
      using lo by (intro lerp_cota [OF V ord _ g0] reps) simp
    ultimately show ?thesis using mem [of lo] lo by auto
  qed
qed

lemma rv_pos_cotas:
  assumes "redondeo_valido u rd" "0 \<le> x"
  shows "rd x \<le> 33 / 32 * x" and "31 / 32 * x \<le> rd x"
proof -
  have u: "0 \<le> u" "u \<le> 1 / 32" using rv_u [OF assms(1)] by simp_all
  have "(1 + u) * x \<le> (33 / 32) * x" using u assms(2) by (intro mult_right_mono) simp_all
  thus "rd x \<le> 33 / 32 * x" using rv_pos(2) [OF assms] by linarith
  have "(31 / 32) * x \<le> (1 - u) * x" using u assms(2) by (intro mult_right_mono) simp_all
  thus "31 / 32 * x \<le> rd x" using rv_pos(3) [OF assms] by linarith
qed

lemma probabilidad_defecto:
  assumes V: "redondeo_valido u rd"
  defines "q \<equiv> rd (1 - rd (95 / 100))"
  shows "0 \<le> q" "q \<le> 1" "0 \<le> rd (rd (q * 100) / 100)" "rd (rd (q * 100) / 100) \<le> 1"
proof -
  have c: "rd (95 / 100) \<le> 33 / 32 * (95 / 100)" "31 / 32 * (95 / 100) \<le> rd (95 / 100)"
    by (rule rv_pos_cotas [OF V], simp)+
  have p: "0 \<le> 1 - rd (95 / 100)" using c(1) by simp
  show q0: "0 \<le> q" unfolding q_def by (rule rv_pos(1) [OF V p])
  have "q \<le> 33 / 32 * (1 - rd (95 / 100))" unfolding q_def by (rule rv_pos_cotas(1) [OF V p])
  hence q1: "q \<le> 1 / 10" using c(2) by simp
  thus "q \<le> 1" by simp
  have a0: "0 \<le> q * 100" using q0 by simp
  have b0: "0 \<le> rd (q * 100)" by (rule rv_pos(1) [OF V a0])
  have "rd (q * 100) \<le> 33 / 32 * (q * 100)" by (rule rv_pos_cotas(1) [OF V a0])
  hence b1: "rd (q * 100) \<le> 11" using q1 by simp
  have d0: "0 \<le> rd (q * 100) / 100" using b0 by simp
  show "0 \<le> rd (rd (q * 100) / 100)" by (rule rv_pos(1) [OF V d0])
  have "rd (rd (q * 100) / 100) \<le> 33 / 32 * (rd (q * 100) / 100)"
    by (rule rv_pos_cotas(1) [OF V d0])
  thus "rd (rd (q * 100) / 100) \<le> 1" using b1 by simp
qed

lemma suma_sec_mono:
  assumes V: "redondeo_valido u rd"
  shows "list_all2 (\<le>) xs ys \<Longrightarrow> res \<le> res' \<Longrightarrow> suma_sec rd res xs \<le> suma_sec rd res' ys"
proof (induction xs ys arbitrary: res res' rule: list_all2_induct)
  case Nil
  thus ?case by simp
next
  case (Cons x xs y ys)
  have "rd (res + x) \<le> rd (res' + y)" using Cons.hyps(1) Cons.prems by (intro rv_mono [OF V]) simp
  thus ?case using Cons.IH by simp
qed

lemma paso8_mono:
  assumes V: "redondeo_valido u rd" and "list_all2 (\<le>) r r'" "list_all2 (\<le>) ys ys'"
  shows "list_all2 (\<le>) (map2 (\<lambda>a y. rd (a + y)) r (take 8 ys))
           (map2 (\<lambda>a y. rd (a + y)) r' (take 8 ys'))"
proof -
  have l: "length r = length r'" "length ys = length ys'"
    using assms(2,3) by (simp_all add: list_all2_lengthD)
  show ?thesis
  proof (rule list_all2_all_nthI)
    show "length (map2 (\<lambda>a y. rd (a + y)) r (take 8 ys))
        = length (map2 (\<lambda>a y. rd (a + y)) r' (take 8 ys'))" using l by simp
  next
    fix i assume "i < length (map2 (\<lambda>a y. rd (a + y)) r (take 8 ys))"
    hence i: "i < length r" "i < 8" "i < length ys" by simp_all
    have "r ! i \<le> r' ! i" "ys ! i \<le> ys' ! i"
      using assms(2,3) i by (simp_all add: list_all2_nthD)
    hence "rd (r ! i + ys ! i) \<le> rd (r' ! i + ys' ! i)" by (intro rv_mono [OF V]) simp
    thus "map2 (\<lambda>a y. rd (a + y)) r (take 8 ys) ! i
        \<le> map2 (\<lambda>a y. rd (a + y)) r' (take 8 ys') ! i"
      using i l by simp
  qed
qed

lemma acumular8_mono:
  "redondeo_valido u rd \<Longrightarrow> list_all2 (\<le>) r r' \<Longrightarrow> list_all2 (\<le>) ys ys'
     \<Longrightarrow> list_all2 (\<le>) (acumular8 rd r ys) (acumular8 rd r' ys')"
proof (induction rd r ys arbitrary: r' ys' rule: acumular8.induct)
  case (1 rd r ys)
  note V = "1.prems"(1)
  have l: "length ys = length ys'" using "1.prems"(3) by (simp add: list_all2_lengthD)
  show ?case
  proof (cases "length ys < 8")
    case True
    thus ?thesis using l "1.prems"(2)
      by (subst acumular8.simps, subst (2) acumular8.simps) simp
  next
    case False
    have d: "list_all2 (\<le>) (drop 8 ys) (drop 8 ys')" using "1.prems"(3) by (rule list_all2_dropI)
    have "list_all2 (\<le>) (acumular8 rd (map2 (\<lambda>a y. rd (a + y)) r (take 8 ys)) (drop 8 ys))
            (acumular8 rd (map2 (\<lambda>a y. rd (a + y)) r' (take 8 ys')) (drop 8 ys'))"
      using False by (intro "1.IH" V paso8_mono [OF V "1.prems"(2,3)] d) simp_all
    thus ?thesis using False l
      by (subst acumular8.simps, subst (2) acumular8.simps) simp
  qed
qed

lemma suma_pares_corta: "length xs < 8 \<Longrightarrow> suma_pares rd xs = suma_sec rd 0 xs"
  by (subst suma_pares.simps) (simp add: Let_def)

lemma suma_pares_bloque:
  "\<not> length xs < 8 \<Longrightarrow> length xs \<le> 128 \<Longrightarrow>
   suma_pares rd xs =
     suma_sec rd (arbol8 rd (acumular8 rd (take 8 xs) (drop 8 xs)))
       (drop (length xs - length xs mod 8) xs)"
  by (subst suma_pares.simps) (simp add: Let_def)

lemma suma_pares_larga:
  "\<not> length xs \<le> 128 \<Longrightarrow>
   suma_pares rd xs =
     rd (suma_pares rd (take (length xs div 2 - length xs div 2 mod 8) xs)
         + suma_pares rd (drop (length xs div 2 - length xs div 2 mod 8) xs))"
  by (subst suma_pares.simps) (simp add: Let_def)

lemma acumular8_length: "length r = 8 \<Longrightarrow> length (acumular8 rd r ys) = 8"
proof (induction rd r ys rule: acumular8.induct)
  case (1 rd r ys)
  show ?case
  proof (cases "length ys < 8")
    case True
    thus ?thesis using "1.prems" by (subst acumular8.simps) simp
  next
    case False
    hence "length (map2 (\<lambda>a y. rd (a + y)) r (take 8 ys)) = 8" using "1.prems" by simp
    hence "length (acumular8 rd (map2 (\<lambda>a y. rd (a + y)) r (take 8 ys)) (drop 8 ys)) = 8"
      using False by (intro "1.IH") simp_all
    thus ?thesis using False by (subst acumular8.simps) simp
  qed
qed

lemma arbol8_mono:
  assumes V: "redondeo_valido u rd" and "list_all2 (\<le>) r r'" "length r = 8"
  shows "arbol8 rd r \<le> arbol8 rd r'"
proof -
  have n: "\<And>i. i < 8 \<Longrightarrow> r ! i \<le> r' ! i" using assms(2,3) by (simp add: list_all2_nthD)
  have a: "rd (r ! 0 + r ! 1) \<le> rd (r' ! 0 + r' ! 1)"
    using n [of 0] n [of 1] by (intro rv_mono [OF V]) simp
  have b: "rd (r ! 2 + r ! 3) \<le> rd (r' ! 2 + r' ! 3)"
    using n [of 2] n [of 3] by (intro rv_mono [OF V]) simp
  have c: "rd (r ! 4 + r ! 5) \<le> rd (r' ! 4 + r' ! 5)"
    using n [of 4] n [of 5] by (intro rv_mono [OF V]) simp
  have d: "rd (r ! 6 + r ! 7) \<le> rd (r' ! 6 + r' ! 7)"
    using n [of 6] n [of 7] by (intro rv_mono [OF V]) simp
  have ab: "rd (rd (r ! 0 + r ! 1) + rd (r ! 2 + r ! 3))
      \<le> rd (rd (r' ! 0 + r' ! 1) + rd (r' ! 2 + r' ! 3))"
    using a b by (intro rv_mono [OF V]) simp
  have cd: "rd (rd (r ! 4 + r ! 5) + rd (r ! 6 + r ! 7))
      \<le> rd (rd (r' ! 4 + r' ! 5) + rd (r' ! 6 + r' ! 7))"
    using c d by (intro rv_mono [OF V]) simp
  show ?thesis unfolding arbol8_def using ab cd by (intro rv_mono [OF V]) simp
qed

lemma suma_pares_mono:
  "redondeo_valido u rd \<Longrightarrow> list_all2 (\<le>) xs ys \<Longrightarrow> suma_pares rd xs \<le> suma_pares rd ys"
proof (induction rd xs arbitrary: ys rule: suma_pares.induct)
  case (1 rd xs)
  note V = "1.prems"(1)
  note xy = "1.prems"(2)
  have l: "length ys = length xs" using xy by (simp add: list_all2_lengthD)
  consider (corta) "length xs < 8" | (bloque) "\<not> length xs < 8" "length xs \<le> 128"
    | (larga) "\<not> length xs < 8" "\<not> length xs \<le> 128"
    by linarith
  thus ?case
  proof cases
    case corta
    have "suma_sec rd 0 xs \<le> suma_sec rd 0 ys" by (rule suma_sec_mono [OF V xy]) simp
    thus ?thesis using corta l by (simp add: suma_pares_corta)
  next
    case bloque
    have rr: "list_all2 (\<le>) (acumular8 rd (take 8 xs) (drop 8 xs))
        (acumular8 rd (take 8 ys) (drop 8 ys))"
      by (intro acumular8_mono [OF V] list_all2_takeI list_all2_dropI xy)
    have "length (acumular8 rd (take 8 xs) (drop 8 xs)) = 8"
      using bloque(1) by (intro acumular8_length) simp
    hence t: "arbol8 rd (acumular8 rd (take 8 xs) (drop 8 xs))
        \<le> arbol8 rd (acumular8 rd (take 8 ys) (drop 8 ys))"
      by (rule arbol8_mono [OF V rr])
    have "suma_sec rd (arbol8 rd (acumular8 rd (take 8 xs) (drop 8 xs)))
            (drop (length xs - length xs mod 8) xs)
        \<le> suma_sec rd (arbol8 rd (acumular8 rd (take 8 ys) (drop 8 ys)))
            (drop (length xs - length xs mod 8) ys)"
      by (intro suma_sec_mono [OF V] list_all2_dropI xy t)
    thus ?thesis using bloque l by (simp add: suma_pares_bloque)
  next
    case larga
    define n2 where "n2 = length xs div 2 - length xs div 2 mod 8"
    have a: "suma_pares rd (take n2 xs) \<le> suma_pares rd (take n2 ys)"
      using larga by (intro "1.IH"(1) [OF refl _ _ n2_def] V list_all2_takeI xy) simp_all
    have b: "suma_pares rd (drop n2 xs) \<le> suma_pares rd (drop n2 ys)"
      using larga by (intro "1.IH"(2) [OF refl _ _ n2_def] V list_all2_dropI xy) simp_all
    have "rd (suma_pares rd (take n2 xs) + suma_pares rd (drop n2 xs))
        \<le> rd (suma_pares rd (take n2 ys) + suma_pares rd (drop n2 ys))"
      using a b by (intro rv_mono [OF V]) simp
    thus ?thesis using larga l by (simp add: suma_pares_larga n2_def)
  qed
qed

lemma rd_cerca:
  assumes V: "redondeo_valido u rd" and "\<bar>x - y\<bar> \<le> ((1 + u) ^ j - 1) * \<bar>y\<bar>"
  shows "\<bar>rd x - y\<bar> \<le> ((1 + u) ^ Suc j - 1) * \<bar>y\<bar>"
proof -
  define e where "e = (1 + u) ^ j - 1"
  have u: "0 \<le> u" using rv_u [OF V] by simp
  have "1 \<le> (1 + u) ^ j" using u by (intro one_le_power) simp
  hence e0: "0 \<le> e" by (simp add: e_def)
  have xy: "\<bar>x - y\<bar> \<le> e * \<bar>y\<bar>" using assms(2) by (simp add: e_def)
  hence "\<bar>x\<bar> \<le> \<bar>y\<bar> + e * \<bar>y\<bar>" by linarith
  hence "u * \<bar>x\<bar> \<le> u * (\<bar>y\<bar> + e * \<bar>y\<bar>)" using u by (rule mult_left_mono)
  hence "\<bar>rd x - x\<bar> \<le> u * (\<bar>y\<bar> + e * \<bar>y\<bar>)" using rv_error [OF V, of x] by linarith
  hence "\<bar>rd x - y\<bar> \<le> u * (\<bar>y\<bar> + e * \<bar>y\<bar>) + e * \<bar>y\<bar>" using xy by linarith
  also have "\<dots> = ((1 + u) * (1 + e) - 1) * \<bar>y\<bar>" by (simp add: algebra_simps)
  also have "(1 + u) * (1 + e) = (1 + u) ^ Suc j" by (simp add: e_def)
  finally show ?thesis .
qed

lemma cota_sube:
  assumes "0 \<le> (u::real)" "j \<le> j'" "\<bar>x - y\<bar> \<le> ((1 + u) ^ j - 1) * \<bar>y\<bar>"
  shows "\<bar>x - y\<bar> \<le> ((1 + u) ^ j' - 1) * \<bar>y\<bar>"
proof -
  have "1 \<le> 1 + u" using assms(1) by simp
  with assms(2) have "(1 + u) ^ j \<le> (1 + u) ^ j'" by (rule power_increasing)
  hence "((1 + u) ^ j - 1) * \<bar>y\<bar> \<le> ((1 + u) ^ j' - 1) * \<bar>y\<bar>"
    by (intro mult_right_mono) simp_all
  thus ?thesis using assms(3) by linarith
qed

lemma suma_cerca:
  assumes V: "redondeo_valido u rd"
    and "\<bar>s1 - real m1 * v\<bar> \<le> ((1 + u) ^ j - 1) * \<bar>real m1 * v\<bar>"
    and "\<bar>s2 - real m2 * v\<bar> \<le> ((1 + u) ^ j - 1) * \<bar>real m2 * v\<bar>"
  shows "\<bar>rd (s1 + s2) - real (m1 + m2) * v\<bar> \<le> ((1 + u) ^ Suc j - 1) * \<bar>real (m1 + m2) * v\<bar>"
proof (rule rd_cerca [OF V])
  have "\<bar>real m1 * v\<bar> = real m1 * \<bar>v\<bar>" "\<bar>real m2 * v\<bar> = real m2 * \<bar>v\<bar>"
    "\<bar>real (m1 + m2) * v\<bar> = real (m1 + m2) * \<bar>v\<bar>"
    by (simp_all only: abs_mult abs_of_nat)
  hence "\<bar>real m1 * v\<bar> + \<bar>real m2 * v\<bar> = \<bar>real (m1 + m2) * v\<bar>"
    by (simp add: distrib_right)
  hence "((1 + u) ^ j - 1) * \<bar>real m1 * v\<bar> + ((1 + u) ^ j - 1) * \<bar>real m2 * v\<bar>
      = ((1 + u) ^ j - 1) * \<bar>real (m1 + m2) * v\<bar>"
    by (simp add: distrib_left [symmetric])
  moreover have "s1 + s2 - real (m1 + m2) * v = (s1 - real m1 * v) + (s2 - real m2 * v)"
    by (simp add: algebra_simps)
  ultimately show "\<bar>s1 + s2 - real (m1 + m2) * v\<bar> \<le> ((1 + u) ^ j - 1) * \<bar>real (m1 + m2) * v\<bar>"
    using assms(2,3) by linarith
qed

lemma suma_sec_rep:
  assumes V: "redondeo_valido u rd"
  shows "\<bar>res - real m * v\<bar> \<le> ((1 + u) ^ j - 1) * \<bar>real m * v\<bar> \<Longrightarrow>
     \<bar>suma_sec rd res (replicate k v) - real (m + k) * v\<bar>
       \<le> ((1 + u) ^ (j + k) - 1) * \<bar>real (m + k) * v\<bar>"
proof (induction k arbitrary: res m j)
  case 0
  thus ?case by simp
next
  case (Suc k)
  have "\<bar>v - real 1 * v\<bar> \<le> ((1 + u) ^ j - 1) * \<bar>real 1 * v\<bar>"
    using rv_u [OF V] by (simp add: one_le_power)
  hence "\<bar>rd (res + v) - real (m + 1) * v\<bar> \<le> ((1 + u) ^ Suc j - 1) * \<bar>real (m + 1) * v\<bar>"
    by (rule suma_cerca [OF V Suc.prems])
  from Suc.IH [OF this] show ?case by simp
qed

lemma uno_cerca:
  assumes "redondeo_valido u rd"
  shows "\<bar>v - real 1 * v\<bar> \<le> ((1 + u) ^ j - 1) * \<bar>real 1 * v\<bar>"
  using rv_u [OF assms] by (simp add: one_le_power)

lemma acumular8_rep:
  assumes V: "redondeo_valido u rd"
  shows "length r = 8 \<Longrightarrow>
     (\<And>i. i < 8 \<Longrightarrow> \<bar>r ! i - real m * v\<bar> \<le> ((1 + u) ^ j - 1) * \<bar>real m * v\<bar>) \<Longrightarrow>
     i < 8 \<Longrightarrow>
     \<bar>acumular8 rd r (replicate k v) ! i - real (m + k div 8) * v\<bar>
       \<le> ((1 + u) ^ (j + k div 8) - 1) * \<bar>real (m + k div 8) * v\<bar>"
proof (induction k arbitrary: r m j rule: less_induct)
  case (less k)
  show ?case
  proof (cases "k < 8")
    case True
    hence "acumular8 rd r (replicate k v) = r" by (subst acumular8.simps) simp
    thus ?thesis using True less.prems(2) [OF less.prems(3)] by simp
  next
    case False
    define r1 where "r1 = map2 (\<lambda>a y. rd (a + y)) r (take 8 (replicate k v))"
    have t: "take 8 (replicate k v) = replicate 8 v" using False by (simp add: min_def)
    have l1: "length r1 = 8" using less.prems(1) by (simp only: r1_def t) simp
    have n1: "\<And>i. i < 8 \<Longrightarrow> r1 ! i = rd (r ! i + v)"
      using less.prems(1) by (simp only: r1_def t) simp
    have c1: "\<And>i. i < 8 \<Longrightarrow>
        \<bar>r1 ! i - real (m + 1) * v\<bar> \<le> ((1 + u) ^ Suc j - 1) * \<bar>real (m + 1) * v\<bar>"
      unfolding n1 by (rule suma_cerca [OF V less.prems(2) uno_cerca [OF V]])
    have e: "acumular8 rd r (replicate k v) = acumular8 rd r1 (replicate (k - 8) v)"
      using False by (subst acumular8.simps) (simp add: r1_def)
    have d: "(k - 8) div 8 + 1 = k div 8" using False by presburger
    have "k - 8 < k" using False by simp
    from less.IH [OF this l1 c1 less.prems(3)]
    have "\<bar>acumular8 rd r1 (replicate (k - 8) v) ! i - real (m + 1 + (k - 8) div 8) * v\<bar>
       \<le> ((1 + u) ^ (Suc j + (k - 8) div 8) - 1) * \<bar>real (m + 1 + (k - 8) div 8) * v\<bar>"
      by simp
    moreover have "m + 1 + (k - 8) div 8 = m + k div 8" "Suc j + (k - 8) div 8 = j + k div 8"
      using d by simp_all
    ultimately show ?thesis by (simp only: e)
  qed
qed

lemma arbol8_rep:
  assumes V: "redondeo_valido u rd" and "length r = 8"
    and c: "\<And>i. i < 8 \<Longrightarrow> \<bar>r ! i - real m * v\<bar> \<le> ((1 + u) ^ j - 1) * \<bar>real m * v\<bar>"
  shows "\<bar>arbol8 rd r - real (8 * m) * v\<bar> \<le> ((1 + u) ^ (j + 3) - 1) * \<bar>real (8 * m) * v\<bar>"
proof -
  have p: "\<And>a b. a < 8 \<Longrightarrow> b < 8 \<Longrightarrow>
      \<bar>rd (r ! a + r ! b) - real (m + m) * v\<bar> \<le> ((1 + u) ^ Suc j - 1) * \<bar>real (m + m) * v\<bar>"
    by (rule suma_cerca [OF V c c])
  have q1: "\<bar>rd (rd (r ! 0 + r ! 1) + rd (r ! 2 + r ! 3)) - real ((m + m) + (m + m)) * v\<bar>
      \<le> ((1 + u) ^ Suc (Suc j) - 1) * \<bar>real ((m + m) + (m + m)) * v\<bar>"
    by (rule suma_cerca [OF V p p]) simp_all
  have q2: "\<bar>rd (rd (r ! 4 + r ! 5) + rd (r ! 6 + r ! 7)) - real ((m + m) + (m + m)) * v\<bar>
      \<le> ((1 + u) ^ Suc (Suc j) - 1) * \<bar>real ((m + m) + (m + m)) * v\<bar>"
    by (rule suma_cerca [OF V p p]) simp_all
  have "\<bar>arbol8 rd r - real (((m + m) + (m + m)) + ((m + m) + (m + m))) * v\<bar>
      \<le> ((1 + u) ^ Suc (Suc (Suc j)) - 1) * \<bar>real (((m + m) + (m + m)) + ((m + m) + (m + m))) * v\<bar>"
    unfolding arbol8_def by (rule suma_cerca [OF V q1 q2])
  moreover have "((m + m) + (m + m)) + ((m + m) + (m + m)) = 8 * m" by simp
  moreover have "Suc (Suc (Suc j)) = j + 3" by simp
  ultimately show ?thesis by (simp only:)
qed

lemma suma_pares_rep:
  assumes V: "redondeo_valido u rd"
  shows "\<bar>suma_pares rd (replicate k v) - real k * v\<bar> \<le> ((1 + u) ^ k - 1) * \<bar>real k * v\<bar>"
proof (induction k rule: less_induct)
  case (less k)
  have u: "0 \<le> u" using rv_u [OF V] by simp
  consider (corta) "k < 8" | (bloque) "\<not> k < 8" "k \<le> 128" | (larga) "\<not> k \<le> 128" by linarith
  thus ?case
  proof cases
    case corta
    have "\<bar>0 - real 0 * v\<bar> \<le> ((1 + u) ^ 0 - 1) * \<bar>real 0 * v\<bar>" by simp
    from suma_sec_rep [OF V this, of k] show ?thesis using corta by (simp add: suma_pares_corta)
  next
    case bloque
    define r where "r = acumular8 rd (replicate 8 v) (replicate (k - 8) v)"
    define b where "b = (k - 8) div 8"
    have lr: "length r = 8" unfolding r_def by (rule acumular8_length) simp
    have c0: "\<And>i. i < 8 \<Longrightarrow>
        \<bar>replicate 8 v ! i - real 1 * v\<bar> \<le> ((1 + u) ^ 0 - 1) * \<bar>real 1 * v\<bar>" by simp
    have cr: "\<And>i. i < 8 \<Longrightarrow>
        \<bar>r ! i - real (1 + b) * v\<bar> \<le> ((1 + u) ^ (0 + b) - 1) * \<bar>real (1 + b) * v\<bar>"
      unfolding r_def b_def by (rule acumular8_rep [OF V _ c0]) simp_all
    have ca: "\<bar>arbol8 rd r - real (8 * (1 + b)) * v\<bar>
        \<le> ((1 + u) ^ (0 + b + 3) - 1) * \<bar>real (8 * (1 + b)) * v\<bar>"
      by (rule arbol8_rep [OF V lr cr])
    have e: "suma_pares rd (replicate k v) = suma_sec rd (arbol8 rd r) (replicate (k mod 8) v)"
      using bloque by (simp add: suma_pares_bloque r_def min_def)
    have k: "8 * (1 + b) + k mod 8 = k" using bloque(1) unfolding b_def by presburger
    have "0 + b + 3 + k mod 8 \<le> 8 * (1 + b) + k mod 8" by simp
    hence j: "0 + b + 3 + k mod 8 \<le> k" by (simp only: k)
    have "\<bar>suma_sec rd (arbol8 rd r) (replicate (k mod 8) v) - real (8 * (1 + b) + k mod 8) * v\<bar>
        \<le> ((1 + u) ^ (0 + b + 3 + k mod 8) - 1) * \<bar>real (8 * (1 + b) + k mod 8) * v\<bar>"
      by (rule suma_sec_rep [OF V ca])
    hence "\<bar>suma_pares rd (replicate k v) - real k * v\<bar>
        \<le> ((1 + u) ^ (0 + b + 3 + k mod 8) - 1) * \<bar>real k * v\<bar>"
      by (simp only: e k)
    thus ?thesis by (rule cota_sube [OF u j])
  next
    case larga
    define n2 where "n2 = k div 2 - k div 2 mod 8"
    have n2: "0 < n2" "n2 < k" using larga unfolding n2_def by linarith+
    define j where "j = max n2 (k - n2)"
    have j: "n2 \<le> j" "k - n2 \<le> j" "Suc j \<le> k" using n2 by (simp_all add: j_def)
    have a: "\<bar>suma_pares rd (replicate n2 v) - real n2 * v\<bar> \<le> ((1 + u) ^ j - 1) * \<bar>real n2 * v\<bar>"
      by (rule cota_sube [OF u j(1) less.IH [OF n2(2)]])
    have "k - n2 < k" using n2 by simp
    hence b: "\<bar>suma_pares rd (replicate (k - n2) v) - real (k - n2) * v\<bar>
        \<le> ((1 + u) ^ j - 1) * \<bar>real (k - n2) * v\<bar>"
      by (rule cota_sube [OF u j(2) less.IH])
    have e: "suma_pares rd (replicate k v)
        = rd (suma_pares rd (replicate n2 v) + suma_pares rd (replicate (k - n2) v))"
      using larga n2 by (simp add: suma_pares_larga n2_def [symmetric] min_def)
    have "\<bar>rd (suma_pares rd (replicate n2 v) + suma_pares rd (replicate (k - n2) v))
            - real (n2 + (k - n2)) * v\<bar>
        \<le> ((1 + u) ^ Suc j - 1) * \<bar>real (n2 + (k - n2)) * v\<bar>"
      by (rule suma_cerca [OF V a b])
    moreover have "n2 + (k - n2) = k" using n2 by simp
    ultimately have "\<bar>suma_pares rd (replicate k v) - real k * v\<bar>
        \<le> ((1 + u) ^ Suc j - 1) * \<bar>real k * v\<bar>"
      by (simp only: e)
    thus ?thesis by (rule cota_sube [OF u j(3)])
  qed
qed

lemma media_rd_mono:
  assumes V: "redondeo_valido u rd" and "xs \<noteq> []" "list_all2 (\<le>) xs ys"
  shows "\<exists>c c'. media_rd rd xs = Fin c \<and> media_rd rd ys = Fin c' \<and> c \<le> c'"
proof -
  have l: "length ys = length xs" using assms(3) by (simp add: list_all2_lengthD)
  hence ne: "ys \<noteq> []" using assms(2) by auto
  have "suma_pares rd xs \<le> suma_pares rd ys" by (rule suma_pares_mono [OF V assms(3)])
  hence "rd (0 + suma_pares rd xs) \<le> rd (0 + suma_pares rd ys)"
    by (intro rv_mono [OF V]) simp
  hence "rd (0 + suma_pares rd xs) / real (length xs) \<le> rd (0 + suma_pares rd ys) / real (length xs)"
    by (rule divide_right_mono) simp
  hence "rd (rd (0 + suma_pares rd xs) / real (length xs))
      \<le> rd (rd (0 + suma_pares rd ys) / real (length xs))"
    by (rule rv_mono [OF V])
  thus ?thesis using assms(2) ne l by (simp add: media_rd_def)
qed

lemma media_rd_rep:
  assumes V: "redondeo_valido u rd" and "0 < k"
  shows "\<exists>c. media_rd rd (replicate k v) = Fin c \<and> \<bar>c - v\<bar> \<le> ((1 + u) ^ (k + 2) - 1) * \<bar>v\<bar>"
proof -
  define S where "S = rd (0 + suma_pares rd (replicate k v))"
  have k0: "0 < real k" using assms(2) by simp
  have "\<bar>0 - real 0 * v\<bar> \<le> ((1 + u) ^ k - 1) * \<bar>real 0 * v\<bar>" by simp
  from suma_cerca [OF V this suma_pares_rep [OF V]]
  have "\<bar>S - real k * v\<bar> \<le> ((1 + u) ^ Suc k - 1) * \<bar>real k * v\<bar>" by (simp add: S_def)
  hence "\<bar>S - real k * v\<bar> / real k \<le> ((1 + u) ^ Suc k - 1) * \<bar>real k * v\<bar> / real k"
    using k0 by (simp add: divide_right_mono)
  moreover have "\<bar>S - real k * v\<bar> / real k = \<bar>S / real k - v\<bar>"
  proof -
    have "(S - real k * v) / real k = S / real k - v" using k0 by (simp add: diff_divide_distrib)
    hence "\<bar>S / real k - v\<bar> = \<bar>(S - real k * v) / real k\<bar>" by simp
    also have "\<dots> = \<bar>S - real k * v\<bar> / \<bar>real k\<bar>" by (rule abs_divide)
    finally show ?thesis using k0 by simp
  qed
  moreover have "((1 + u) ^ Suc k - 1) * \<bar>real k * v\<bar> / real k = ((1 + u) ^ Suc k - 1) * \<bar>v\<bar>"
    using k0 by (simp add: abs_mult)
  ultimately have "\<bar>S / real k - v\<bar> \<le> ((1 + u) ^ Suc k - 1) * \<bar>v\<bar>" by simp
  hence "\<bar>rd (S / real k) - v\<bar> \<le> ((1 + u) ^ Suc (Suc k) - 1) * \<bar>v\<bar>" by (rule rd_cerca [OF V])
  moreover have "media_rd rd (replicate k v) = Fin (rd (S / real k))"
    using assms(2) by (simp add: media_rd_def S_def)
  ultimately show ?thesis by simp
qed

text \<open>
  C3 (as amended). With floating-point arithmetic (any monotone rounding of relative
  error at most \<open>u\<close>), for every nonempty series of floats \<open>calcular_var_cvar\<close> at
  confidence 0.95 returns two numbers: the VaR is the interpolated quantile of the series
  at probability \<open>1 - 0.95\<close>, and the CVaR is the floating-point mean of the
  observations at or below the VaR, of which there is at least one. The CVaR is at most
  the VaR up to the rounding of that mean: it exceeds the VaR by at most
  \<open>((1 + u) ^ (k + 2) - 1) * |VaR|\<close>, with \<open>k\<close> the number of those observations.
\<close>

theorem calcular_var_cvar_rd_cola:
  assumes V: "redondeo_valido u rd" and ne: "r \<noteq> []" and rep: "\<forall>x\<in>set r. rd x = x"
  shows "\<exists>v c. calcular_var_cvar_rd rd r (rd (95 / 100)) = Inr (Fin v, Fin c)
      \<and> cuantil_rd rd r (rd (1 - rd (95 / 100))) = Inr (Fin v)
      \<and> filter (\<lambda>x. x \<le> v) r \<noteq> []
      \<and> media_rd rd (filter (\<lambda>x. x \<le> v) r) = Fin c
      \<and> c \<le> v + ((1 + u) ^ (length (filter (\<lambda>x. x \<le> v) r) + 2) - 1) * \<bar>v\<bar>"
proof -
  obtain v where v: "cuantil_rd rd r (rd (1 - rd (95 / 100))) = Inr (Fin v)"
    and ex: "\<exists>x\<in>set r. x \<le> v"
    using cuantil_rd_cota [OF V ne rep probabilidad_defecto [OF V]] by blast
  define t where "t = filter (\<lambda>x. x \<le> v) r"
  have tne: "t \<noteq> []" using ex by (auto simp: t_def filter_empty_conv)
  have "list_all2 (\<le>) t (replicate (length t) v)"
    by (rule list_all2_all_nthI) (auto simp: t_def dest: nth_mem)
  from media_rd_mono [OF V tne this] obtain c c' where
    c: "media_rd rd t = Fin c" "media_rd rd (replicate (length t) v) = Fin c'" "c \<le> c'" by blast
  have "0 < length t" using tne by simp
  from media_rd_rep [OF V this, of v] c(2)
  have "\<bar>c' - v\<bar> \<le> ((1 + u) ^ (length t + 2) - 1) * \<bar>v\<bar>" by simp
  hence le: "c \<le> v + ((1 + u) ^ (length t + 2) - 1) * \<bar>v\<bar>" using c(3) by linarith
  have "calcular_var_cvar_rd rd r (rd (95 / 100)) = Inr (Fin v, Fin c)"
    using v c(1) by (simp add: calcular_var_cvar_rd_def menores_o_iguales_def t_def)
  thus ?thesis using v tne c(1) le unfolding t_def by blast
qed

text \<open>Exact arithmetic and binary64 rounding are both rounding operators in this sense.\<close>

lemma redondeo_valido_exacto: "redondeo_valido 0 (\<lambda>x. x)"
  by (simp add: redondeo_valido_def)

lemma redondeo_valido_64: "redondeo_valido (2 powi (- 53)) redondeo64"
  unfolding redondeo_valido_def
  using redondeo64_mono redondeo64_error by (simp add: power_int_minus)

lemmas dd = d01_def d05_def d095_def d005_def d5_def d015_def d01s_def

lemma r95: "redondeo64 (95 / 100) = d095"
  by (subst redondeo64_eval [where e = "-1"]) (simp_all add: dd ev)

lemma rq: "redondeo64 (1 - d095) = d005"
  by (subst redondeo64_eval [where e = "-5"]) (simp_all add: dd ev)

lemma r100: "redondeo64 (d005 * 100) = d5"
  by (subst redondeo64_eval [where e = "2"]) (simp_all add: dd ev)

lemma rdiv: "redondeo64 (d5 / 100) = d005"
  by (subst redondeo64_eval [where e = "-5"]) (simp_all add: dd ev)

lemma rh: "redondeo64 (real (length [d01, d01, d01, d05] - 1) * d005) = d015"
  by (subst redondeo64_eval [where e = "-3"]) (simp_all add: dd ev)

lemma r_d05: "redondeo64 d05 = d05"
  by (subst redondeo64_eval [where e = "-1"]) (simp_all add: dd ev)

lemma cuantil_ejemplo: "cuantil_rd redondeo64 [d01, d01, d01, d05] d005 = Inr (Fin d01)"
proof -
  let ?L = "[d01, d01, d01, d05]"
  have p: "0 \<le> d005" "d005 \<le> 1" by (simp_all add: dd)
  have p': "0 \<le> redondeo64 (redondeo64 (d005 * 100) / 100)"
    "redondeo64 (redondeo64 (d005 * 100) / 100) \<le> 1"
    using p by (simp_all only: r100 rdiv)
  have ne: "?L \<noteq> []" by simp
  have c: "\<not> real (length ?L - 1) \<le> d015" "\<not> d015 < 0" by (simp_all add: dd)
  have lo: "nat \<lfloor>d015\<rfloor> = 0" by (simp add: dd)
  have s: "sort ?L = ?L" by (simp add: dd)
  have "cuantil_rd redondeo64 ?L d005
      = Inr (Fin (lerp_rd redondeo64 (?L ! 0) (?L ! (0 + 1)) (redondeo64 (d015 - real 0))))"
    unfolding cuantil_rd_interior [where rd = redondeo64 and q = d005 and xs = ?L, OF p p' ne]
    by (simp only: r100 rdiv rh c if_False lo s)
  also have "lerp_rd redondeo64 (?L ! 0) (?L ! (0 + 1)) (redondeo64 (d015 - real 0)) = d01"
    using lerp_igual [OF redondeo_valido_64 r_d01(2)] by simp
  finally show ?thesis .
qed

lemma cola_ejemplo: "menores_o_iguales [d01, d01, d01, d05] (Fin d01) = [d01, d01, d01]"
  by (simp add: menores_o_iguales_def dd)

text \<open>
  In binary64 arithmetic, on the series 0.1, 0.1, 0.1, 0.5 the VaR is 0.1 and the CVaR is
  the mean of three times 0.1, which is the next double after 0.1: the CVaR exceeds the
  VaR.
\<close>

theorem cvar_mayor_que_var:
  "calcular_var_cvar_rd redondeo64 [d01, d01, d01, d05] (redondeo64 (95 / 100))
     = Inr (Fin d01, Fin d01s)
   \<and> \<not> d01s \<le> d01"
proof -
  have "calcular_var_cvar_rd redondeo64 [d01, d01, d01, d05] (redondeo64 (95 / 100))
      = Inr (Fin d01, Fin d01s)"
    unfolding calcular_var_cvar_rd_def
    by (simp only: r95 rq cuantil_ejemplo sum.case cola_ejemplo media3)
  thus ?thesis using d01s_mayor by simp
qed

theorem calcular_var_cvar_rd_cola_witness:
  "redondeo_valido (2 powi (- 53)) redondeo64
   \<and> redondeo64 d01 = d01 \<and> redondeo64 d05 = d05
   \<and> (\<exists>v c. calcular_var_cvar_rd redondeo64 [d01, d01, d01, d05] (redondeo64 (95 / 100))
          = Inr (Fin v, Fin c)
        \<and> c \<le> v + ((1 + 2 powi (- 53)) ^ (length (filter (\<lambda>x. x \<le> v) [d01, d01, d01, d05]) + 2) - 1) * \<bar>v\<bar>)"
proof -
  have rep: "\<forall>x\<in>set [d01, d01, d01, d05]. redondeo64 x = x" by (simp add: r_d01 r_d05)
  from calcular_var_cvar_rd_cola [OF redondeo_valido_64 _ rep]
  have "\<exists>v c. calcular_var_cvar_rd redondeo64 [d01, d01, d01, d05] (redondeo64 (95 / 100))
          = Inr (Fin v, Fin c)
        \<and> c \<le> v + ((1 + 2 powi (- 53)) ^ (length (filter (\<lambda>x. x \<le> v) [d01, d01, d01, d05]) + 2) - 1) * \<bar>v\<bar>"
    by blast
  thus ?thesis using redondeo_valido_64 r_d01(2) r_d05 by blast
qed

end
